theory Spec2Isabelle
  imports Main
begin

section \<open>Resource loading of qutebrowser (\<open>qutebrowser/utils/resources.py\<close>)\<close>

text \<open>
  The module resolves a resource name to a handle (\<open>_resource_path\<close>), lists the
  resources of a subdirectory (\<open>_glob_resources\<close>), fills a process-wide cache
  (\<open>preload_resources\<close>) and reads resources as text or bytes (\<open>read_file\<close>,
  \<open>read_file_binary\<close>).  The functions of the module are embedded one by one
  in the last part of the definitions.  What they call in the Python standard
  library (\<open>posixpath\<close>, \<open>pathlib\<close>, \<open>fnmatch\<close>, \<open>zipfile.Path\<close>, text decoding)
  is the platform; it is modelled first, after CPython 3.11 on POSIX, as
  executable functions over an explicit environment.

  Conventions: names and paths are HOL strings, one \<open>char\<close> per character of the
  Python \<open>str\<close> (code points below 256); file contents are byte strings (one
  \<open>char\<close> per byte); decoded text is a list of Unicode code points.  A raised
  exception is the \<open>Inl\<close> of a sum, identified by its class (messages are
  dropped); \<open>OSError\<close> stands for an \<open>OSError\<close> that has no subclass of its own,
  as \<open>ENAMETOOLONG\<close> gives.  Assertions are enabled (the interpreter does not
  run with \<open>-O\<close>).  The file system compares names exactly (no case folding,
  no normalisation), and names are passed to it in UTF-8 (the file-system
  encoding).  Symbolic links and permissions are not part of the file-system
  model.
\<close>

subsection \<open>Exceptions and generators\<close>

datatype pyexc =
    AssertionError
  | FileNotFoundError
  | KeyError
  | NotADirectoryError
  | IsADirectoryError
  | UnicodeDecodeError
  | ValueError
  | OSError

type_synonym bytes = "char list"
type_synonym pystr = "nat list"

text \<open>
  A generator that is run to its end: the values it yielded, in order, and the
  exception that ended it, if one did.  \<open>gen_collect\<close> runs a sequence of steps
  that each yield a value or raise.
\<close>

type_synonym 'a gen = "'a list \<times> pyexc option"

fun gen_collect :: "(pyexc + 'a) list \<Rightarrow> 'a gen" where
  "gen_collect [] = ([], None)"
| "gen_collect (Inl e # xs) = ([], Some e)"
| "gen_collect (Inr x # xs) = (case gen_collect xs of (ys, r) \<Rightarrow> (x # ys, r))"

subsection \<open>Strings and \<open>posixpath\<close>\<close>

definition startswith :: "string \<Rightarrow> string \<Rightarrow> bool" where
  "startswith s p = (take (length p) s = p)"

definition endswith :: "string \<Rightarrow> string \<Rightarrow> bool" where
  "endswith s p = (length p \<le> length s \<and> drop (length s - length p) s = p)"

text \<open>\<open>s.split(sep)\<close> for a one-character separator: never the empty list.\<close>

fun str_split :: "char \<Rightarrow> string \<Rightarrow> string list" where
  "str_split sep [] = [[]]"
| "str_split sep (c # cs) =
     (if c = sep then [] # str_split sep cs
      else (case str_split sep cs of
              [] \<Rightarrow> [[c]]
            | x # xs \<Rightarrow> (c # x) # xs))"

definition rstrip_sep :: "string \<Rightarrow> string" where
  "rstrip_sep s = rev (dropWhile (\<lambda>c. c = CHR ''/'') (rev s))"

definition lstrip_sep :: "string \<Rightarrow> string" where
  "lstrip_sep s = dropWhile (\<lambda>c. c = CHR ''/'') s"

fun str_join :: "string \<Rightarrow> string list \<Rightarrow> string" where
  "str_join sep [] = []"
| "str_join sep [x] = x"
| "str_join sep (x # y # ys) = x @ sep @ str_join sep (y # ys)"

definition posixpath_isabs :: "string \<Rightarrow> bool" where
  "posixpath_isabs s = startswith s ''/''"

definition posixpath_join :: "string \<Rightarrow> string \<Rightarrow> string" where
  "posixpath_join a b =
     (if startswith b ''/'' then b
      else if a = [] \<or> endswith a ''/'' then a @ b
      else a @ ''/'' @ b)"

definition posixpath_dirname :: "string \<Rightarrow> string" where
  "posixpath_dirname p =
     (let head = rev (dropWhile (\<lambda>c. c \<noteq> CHR ''/'') (rev p))
      in if head \<noteq> [] \<and> \<not> (\<forall>c \<in> set head. c = CHR ''/'') then rstrip_sep head else head)"

subsection \<open>\<open>pathlib\<close> pure paths (POSIX flavour)\<close>

text \<open>
  A parsed path: its root (\<open>''''\<close>, \<open>''/''\<close> or \<open>''//''\<close>) and its components.
  Parsing drops empty and \<open>''.''\<close> components and keeps \<open>''..''\<close>.
\<close>

record ppath =
  p_root :: string
  p_parts :: "string list"

definition splitroot :: "string \<Rightarrow> string \<times> string" where
  "splitroot part =
     (if part \<noteq> [] \<and> hd part = CHR ''/'' then
        (let stripped = lstrip_sep part
         in if length part - length stripped = 2 then (''//'', stripped) else (''/'', stripped))
      else ('''', part))"

definition parse_path :: "string \<Rightarrow> ppath" where
  "parse_path s =
     (case splitroot s of (r, rel) \<Rightarrow>
        \<lparr> p_root = r, p_parts = filter (\<lambda>x. x \<noteq> [] \<and> x \<noteq> ''.'') (str_split CHR ''/'' rel) \<rparr>)"

text \<open>\<open>p / s\<close>: an anchored right operand replaces the left one.\<close>

definition joinpath :: "ppath \<Rightarrow> string \<Rightarrow> ppath" where
  "joinpath p s =
     (let q = parse_path s
      in if p_root q \<noteq> [] then q
         else \<lparr> p_root = p_root p, p_parts = p_parts p @ p_parts q \<rparr>)"

definition make_child_relpath :: "ppath \<Rightarrow> string \<Rightarrow> ppath" where
  "make_child_relpath p name = \<lparr> p_root = p_root p, p_parts = p_parts p @ [name] \<rparr>"

definition parent :: "ppath \<Rightarrow> ppath" where
  "parent p = \<lparr> p_root = p_root p, p_parts = butlast (p_parts p) \<rparr>"

definition path_name :: "ppath \<Rightarrow> string" where
  "path_name p = (if p_parts p = [] then [] else last (p_parts p))"

definition as_posix :: "ppath \<Rightarrow> string" where
  "as_posix p =
     (let s = p_root p @ str_join ''/'' (p_parts p) in if s = [] then ''.'' else s)"

definition relative_to :: "ppath \<Rightarrow> ppath \<Rightarrow> pyexc + ppath" where
  "relative_to p other =
     (if p_root p = p_root other \<and> take (length (p_parts other)) (p_parts p) = p_parts other
      then Inr \<lparr> p_root = [], p_parts = drop (length (p_parts other)) (p_parts p) \<rparr>
      else Inl ValueError)"

subsection \<open>\<open>fnmatch\<close>\<close>

text \<open>
  \<open>fnmatch.translate\<close> turns a pattern into a regular expression made of
  \<open>*\<close> (any string), \<open>?\<close> (any character), a bracket expression, or a literal
  character.  A \<open>[\<close> without a closing \<open>]\<close> is a literal.  The regular expression
  is matched against the whole name, case-sensitively.
\<close>

datatype glob_piece = Star | AnyChar | CharClass string | Lit char

text \<open>
  The text between \<open>[\<close> and the closing \<open>]\<close>, and the pattern after it: a \<open>!\<close>
  and then a \<open>]\<close> right after the opening bracket belong to the expression.
\<close>

definition bracket_split :: "string \<Rightarrow> (string \<times> string) option" where
  "bracket_split p =
     (let neg = (if p \<noteq> [] \<and> hd p = CHR ''!'' then [CHR ''!''] else []);
          p1 = drop (length neg) p;
          fst_br = (if p1 \<noteq> [] \<and> hd p1 = CHR '']'' then [CHR '']''] else []);
          p2 = drop (length fst_br) p1;
          body = takeWhile (\<lambda>c. c \<noteq> CHR '']'') p2;
          rest = dropWhile (\<lambda>c. c \<noteq> CHR '']'') p2
      in if rest = [] then None else Some (neg @ fst_br @ body, tl rest))"

function translate :: "string \<Rightarrow> glob_piece list" where
  "translate [] = []"
| "translate (c # pat) =
     (if c = CHR ''*'' then Star # translate pat
      else if c = CHR ''?'' then AnyChar # translate pat
      else if c = CHR ''['' then
        (case bracket_split pat of
           None \<Rightarrow> Lit c # translate pat
         | Some (stuff, rest) \<Rightarrow> CharClass stuff # translate rest)
      else Lit c # translate pat)"
  by pat_completeness auto

termination translate
proof -
  have shorter: "length rest < length p"
    if a: "bracket_split p = Some (stuff, rest)" for p stuff rest
  proof -
    define neg where "neg = (if p \<noteq> [] \<and> hd p = CHR ''!'' then [CHR ''!''] else [])"
    define p1 where "p1 = drop (length neg) p"
    define fst_br where "fst_br = (if p1 \<noteq> [] \<and> hd p1 = CHR '']'' then [CHR '']''] else [])"
    define p2 where "p2 = drop (length fst_br) p1"
    define rest0 where "rest0 = dropWhile (\<lambda>c. c \<noteq> CHR '']'') p2"
    have bs: "bracket_split p =
        (if rest0 = [] then None
         else Some (neg @ fst_br @ takeWhile (\<lambda>c. c \<noteq> CHR '']'') p2, tl rest0))"
      unfolding bracket_split_def Let_def neg_def p1_def fst_br_def p2_def rest0_def ..
    from a bs have r: "rest0 \<noteq> []" and e: "rest = tl rest0"
      by (simp_all split: if_splits)
    have "length rest0 \<le> length p2"
      unfolding rest0_def by (rule length_dropWhile_le)
    moreover have "length p2 \<le> length p"
      by (simp add: p2_def p1_def)
    moreover from r e have "length rest < length rest0"
      by (cases rest0) auto
    ultimately show ?thesis by linarith
  qed
  show ?thesis
    by (relation "measure length") (auto dest: shorter)
qed

text \<open>
  Membership in a bracket expression: \<open>x-y\<close> is a range of character codes, any
  other character stands for itself; a leading \<open>!\<close> negates.
\<close>

fun class_items :: "string \<Rightarrow> char \<Rightarrow> bool" where
  "class_items (a # b # c # rest) x =
     (if b = CHR ''-'' then ((of_char a :: nat) \<le> of_char x \<and> (of_char x :: nat) \<le> of_char c) \<or> class_items rest x
      else a = x \<or> class_items (b # c # rest) x)"
| "class_items (a # rest) x = (a = x \<or> class_items rest x)"
| "class_items [] x = False"

definition class_member :: "string \<Rightarrow> char \<Rightarrow> bool" where
  "class_member stuff x =
     (if stuff \<noteq> [] \<and> hd stuff = CHR ''!'' then \<not> class_items (tl stuff) x
      else class_items stuff x)"

fun pieces_match :: "glob_piece list \<Rightarrow> string \<Rightarrow> bool" where
  "pieces_match [] s = (s = [])"
| "pieces_match (Star # ps) [] = pieces_match ps []"
| "pieces_match (Star # ps) (c # cs) = (pieces_match ps (c # cs) \<or> pieces_match (Star # ps) cs)"
| "pieces_match (AnyChar # ps) [] = False"
| "pieces_match (AnyChar # ps) (c # cs) = pieces_match ps cs"
| "pieces_match (CharClass stuff # ps) [] = False"
| "pieces_match (CharClass stuff # ps) (c # cs) = (class_member stuff c \<and> pieces_match ps cs)"
| "pieces_match (Lit a # ps) [] = False"
| "pieces_match (Lit a # ps) (c # cs) = (a = c \<and> pieces_match ps cs)"

definition fnmatch :: "string \<Rightarrow> string \<Rightarrow> bool" where
  "fnmatch name pat = pieces_match (translate pat) name"

definition is_wildcard_pattern :: "string \<Rightarrow> bool" where
  "is_wildcard_pattern pat = (CHR ''*'' \<in> set pat \<or> CHR ''?'' \<in> set pat \<or> CHR ''['' \<in> set pat)"

subsection \<open>Text decoding\<close>

text \<open>
  Strict UTF-8: one code point from a lead byte and the bytes after it, with
  the number of continuation bytes it used.  Overlong forms, surrogates and
  code points above \<open>0x10FFFF\<close> are rejected.
\<close>

definition is_cont :: "nat \<Rightarrow> bool" where
  "is_cont b = (128 \<le> b \<and> b < 192)"

definition utf8_next :: "nat \<Rightarrow> nat list \<Rightarrow> (nat \<times> nat) option" where
  "utf8_next b0 bs =
     (if b0 < 128 then Some (b0, 0)
      else if 194 \<le> b0 \<and> b0 < 224 then
        (case bs of
           b1 # _ \<Rightarrow> if is_cont b1 then Some ((b0 - 192) * 64 + (b1 - 128), 1) else None
         | _ \<Rightarrow> None)
      else if 224 \<le> b0 \<and> b0 < 240 then
        (case bs of
           b1 # b2 # _ \<Rightarrow>
             (let cp = (b0 - 224) * 4096 + (b1 - 128) * 64 + (b2 - 128)
              in if is_cont b1 \<and> is_cont b2 \<and> 2048 \<le> cp \<and> \<not> (55296 \<le> cp \<and> cp < 57344)
                 then Some (cp, 2) else None)
         | _ \<Rightarrow> None)
      else if 240 \<le> b0 \<and> b0 < 245 then
        (case bs of
           b1 # b2 # b3 # _ \<Rightarrow>
             (let cp = (b0 - 240) * 262144 + (b1 - 128) * 4096 + (b2 - 128) * 64 + (b3 - 128)
              in if is_cont b1 \<and> is_cont b2 \<and> is_cont b3 \<and> 65536 \<le> cp \<and> cp < 1114112
                 then Some (cp, 3) else None)
         | _ \<Rightarrow> None)
      else None)"

fun utf8_decode :: "nat list \<Rightarrow> pyexc + pystr" where
  "utf8_decode [] = Inr []"
| "utf8_decode (b0 # bs) =
     (case utf8_next b0 bs of
        None \<Rightarrow> Inl UnicodeDecodeError
      | Some (cp, k) \<Rightarrow>
          (case utf8_decode (drop k bs) of
             Inl e \<Rightarrow> Inl e
           | Inr cps \<Rightarrow> Inr (cp # cps)))"

text \<open>Universal newlines of text mode: \<open>\r\n\<close> and \<open>\r\<close> are read as \<open>\n\<close>.\<close>

fun universal_newlines :: "pystr \<Rightarrow> pystr" where
  "universal_newlines [] = []"
| "universal_newlines [c] = [if c = 13 then 10 else c]"
| "universal_newlines (c # d # cs) =
     (if c = 13 \<and> d = 10 then 10 # universal_newlines cs
      else if c = 13 then 10 # universal_newlines (d # cs)
      else c # universal_newlines (d # cs))"

definition decode_text :: "bytes \<Rightarrow> pyexc + pystr" where
  "decode_text data = map_sum id universal_newlines (utf8_decode (map of_char data))"

subsection \<open>The environment\<close>

text \<open>
  A file-system node is a regular file with its bytes or a directory with its
  entries in listing order.  A resource handle is a \<open>pathlib.Path\<close> or a
  \<open>zipfile.Path\<close> (the archive and the member name \<open>at\<close>); the archive of all
  \<open>zipfile.Path\<close> handles is the one of the environment.
\<close>

datatype fsnode = File bytes | Dir "(string \<times> fsnode) list"

datatype handle = PathH ppath | ZipH string

text \<open>
  What the module reads from its surroundings:
  \<^item> \<open>frozen\<close>: \<open>hasattr(sys, 'frozen')\<close>; \<open>executable\<close>: \<open>sys.executable\<close>;
  \<^item> \<open>package_files\<close>: \<open>importlib_resources.files(qutebrowser)\<close>;
  \<^item> \<open>fs_root\<close>: the directory \<open>/\<close>; \<open>cwd\<close>: the components of the working directory;
  \<^item> \<open>name_max\<close>, \<open>path_max\<close>: the limits \<open>NAME_MAX\<close> and \<open>PATH_MAX\<close> of the file
    system, in bytes (255 and 4096 on Linux);
  \<^item> \<open>zip_members\<close>: the members of the archive in archive order, each with its
    bytes; \<open>zip_implied_dirs\<close>: the directories that \<open>CompleteDirs\<close> adds to the
    name list; \<open>zip_filename\<close>: the archive's file name;
  \<^item> \<open>zip_checks_exists\<close>: whether \<open>zipfile.Path.open\<close> tests, before it opens the
    member, that its name is not that of a directory and that it exists, as
    CPython 3.11 does; without the tests (the library versions that
    \<open>_resource_keyerror_workaround\<close> is for) \<open>open\<close> is \<open>ZipFile.open\<close>, and a name
    that is not a member surfaces as the \<open>KeyError\<close> of \<open>ZipFile.getinfo\<close>.
\<close>

record env =
  frozen :: bool
  executable :: string
  package_files :: handle
  fs_root :: fsnode
  cwd :: "string list"
  name_max :: nat
  path_max :: nat
  zip_members :: "(string \<times> bytes) list"
  zip_implied_dirs :: "string list"
  zip_filename :: string
  zip_checks_exists :: bool

subsection \<open>\<open>pathlib.Path\<close> on the file system\<close>

text \<open>The length in bytes of a name in UTF-8: two bytes for a code point from 128.\<close>

definition fsencode_length :: "string \<Rightarrow> nat" where
  "fsencode_length s = sum_list (map (\<lambda>c. if (of_char c :: nat) < 128 then 1 else 2) s)"

text \<open>
  Path resolution from a directory, with the directories above it: a component
  below a regular file is \<open>ENOTDIR\<close>, a component longer than \<open>NAME_MAX\<close> is
  \<open>ENAMETOOLONG\<close>, a missing entry is \<open>ENOENT\<close>.
\<close>

fun walk :: "nat \<Rightarrow> fsnode list \<Rightarrow> fsnode \<Rightarrow> string list \<Rightarrow> pyexc + fsnode" where
  "walk nmax up n [] = Inr n"
| "walk nmax up (File b) (s # ss) = Inl NotADirectoryError"
| "walk nmax up (Dir es) (s # ss) =
     (if s = ''.'' then walk nmax up (Dir es) ss
      else if s = ''..'' then
        (case up of
           [] \<Rightarrow> walk nmax [] (Dir es) ss
         | u # us \<Rightarrow> walk nmax us u ss)
      else if nmax < fsencode_length s then Inl OSError
      else
        (case map_of es s of
           None \<Rightarrow> Inl FileNotFoundError
         | Some n \<Rightarrow> walk nmax (Dir es # up) n ss))"

text \<open>
  \<open>os.stat\<close> and \<open>open\<close> on a path: a NUL character in the path is a \<open>ValueError\<close>
  of the interpreter, a path of \<open>PATH_MAX\<close> bytes or more is \<open>ENAMETOOLONG\<close>, and
  any other path is resolved.
\<close>

definition stat :: "env \<Rightarrow> ppath \<Rightarrow> pyexc + fsnode" where
  "stat env p =
     (if CHR 0x00 \<in> set (as_posix p) then Inl ValueError
      else if path_max env \<le> fsencode_length (as_posix p) then Inl OSError
      else walk (name_max env) [] (fs_root env)
             (if p_root p = [] then cwd env @ p_parts p else p_parts p))"

text \<open>
  \<open>Path.exists()\<close> and \<open>Path.is_dir()\<close> answer \<open>False\<close> on \<open>ENOENT\<close>, \<open>ENOTDIR\<close> and
  \<open>ValueError\<close> and raise any other error of \<open>stat\<close>.
\<close>

definition ignore_error :: "pyexc \<Rightarrow> bool" where
  "ignore_error e = (e = FileNotFoundError \<or> e = NotADirectoryError \<or> e = ValueError)"

definition path_exists :: "env \<Rightarrow> ppath \<Rightarrow> pyexc + bool" where
  "path_exists env p =
     (case stat env p of
        Inr n \<Rightarrow> Inr True
      | Inl e \<Rightarrow> if ignore_error e then Inr False else Inl e)"

definition path_is_dir :: "env \<Rightarrow> ppath \<Rightarrow> pyexc + bool" where
  "path_is_dir env p =
     (case stat env p of
        Inr (Dir es) \<Rightarrow> Inr True
      | Inr (File b) \<Rightarrow> Inr False
      | Inl e \<Rightarrow> if ignore_error e then Inr False else Inl e)"

definition scandir :: "env \<Rightarrow> ppath \<Rightarrow> pyexc + (string \<times> fsnode) list" where
  "scandir env p =
     (case stat env p of
        Inr (Dir es) \<Rightarrow> Inr es
      | Inr (File b) \<Rightarrow> Inl NotADirectoryError
      | Inl e \<Rightarrow> Inl e)"

definition path_read_bytes :: "env \<Rightarrow> ppath \<Rightarrow> pyexc + bytes" where
  "path_read_bytes env p =
     (case stat env p of
        Inl e \<Rightarrow> Inl e
      | Inr (Dir es) \<Rightarrow> Inl IsADirectoryError
      | Inr (File data) \<Rightarrow> Inr data)"

text \<open>
  The selectors of \<open>Path.glob\<close> for a pattern without \<open>**\<close>, one per pattern
  component: a component with a wildcard lists the directory and matches the
  entry names, any other component is looked up by name.  A selector that has
  a successor selects directories only; an empty component (after a trailing
  slash) ends the selection.  The result is the sequence of steps of the
  generator: a path it yields, or an exception that ends it.
\<close>

fun select_from_parts :: "env \<Rightarrow> string list \<Rightarrow> ppath \<Rightarrow> (pyexc + ppath) list" where
  "select_from_parts env [] parent_path = [Inr parent_path]"
| "select_from_parts env (pat # child_parts) parent_path =
     (if pat = [] then [Inr parent_path]
      else if is_wildcard_pattern pat then
        (case scandir env parent_path of
           Inl e \<Rightarrow> [Inl e]
         | Inr entries \<Rightarrow>
             concat (map (\<lambda>(name, node).
                       if (child_parts \<noteq> [] \<longrightarrow> (case node of Dir es \<Rightarrow> True | File b \<Rightarrow> False))
                          \<and> fnmatch name pat
                       then select_from_parts env child_parts (make_child_relpath parent_path name)
                       else [])
                     entries))
      else
        (let path = make_child_relpath parent_path pat
         in case (if child_parts \<noteq> [] then path_is_dir env path else path_exists env path) of
              Inl e \<Rightarrow> [Inl e]
            | Inr found \<Rightarrow> if found then select_from_parts env child_parts path else []))"

text \<open>\<open>path.glob(pattern)\<close> for a non-empty relative pattern.\<close>

definition glob :: "env \<Rightarrow> ppath \<Rightarrow> string \<Rightarrow> (pyexc + ppath) list" where
  "glob env path pattern =
     (let pattern_parts = p_parts (parse_path pattern) @ (if last pattern = CHR ''/'' then [[]] else [])
      in case path_is_dir env path of
           Inl e \<Rightarrow> [Inl e]
         | Inr is_dir \<Rightarrow> if is_dir then select_from_parts env pattern_parts path else [])"

subsection \<open>\<open>zipfile.Path\<close>\<close>

text \<open>\<open>CompleteDirs.namelist()\<close>: the member names, then the implied directories.\<close>

definition zip_namelist :: "env \<Rightarrow> string list" where
  "zip_namelist env = map fst (zip_members env) @ zip_implied_dirs env"

definition zip_is_dir :: "string \<Rightarrow> bool" where
  "zip_is_dir at = (at = [] \<or> endswith at ''/'')"

definition zip_exists :: "env \<Rightarrow> string \<Rightarrow> bool" where
  "zip_exists env at = (at \<in> set (zip_namelist env))"

definition resolve_dir :: "env \<Rightarrow> string \<Rightarrow> string" where
  "resolve_dir env name =
     (let dirname = name @ ''/'';
          dir_match = (name \<notin> set (zip_namelist env) \<and> dirname \<in> set (zip_namelist env))
      in if dir_match then dirname else name)"

definition zip_joinpath :: "env \<Rightarrow> string \<Rightarrow> string \<Rightarrow> string" where
  "zip_joinpath env at other = resolve_dir env (posixpath_join at other)"

definition zip_is_child :: "string \<Rightarrow> string \<Rightarrow> bool" where
  "zip_is_child at path_at = (posixpath_dirname (rstrip_sep path_at) = rstrip_sep at)"

definition zip_iterdir :: "env \<Rightarrow> string \<Rightarrow> pyexc + string list" where
  "zip_iterdir env at =
     (if \<not> zip_is_dir at then Inl ValueError
      else Inr (filter (zip_is_child at) (zip_namelist env)))"

definition zip_name :: "env \<Rightarrow> string \<Rightarrow> string" where
  "zip_name env at = path_name (parse_path (if at = [] then zip_filename env else at))"

text \<open>
  \<open>ZipFile.open(name).read()\<close>: of members with the same name the last one is
  found; a name that is not a member is a \<open>KeyError\<close>.
\<close>

definition zipfile_read :: "env \<Rightarrow> string \<Rightarrow> pyexc + bytes" where
  "zipfile_read env name =
     (case map_of (rev (zip_members env)) name of
        None \<Rightarrow> Inl KeyError
      | Some data \<Rightarrow> Inr data)"

definition zip_read_bytes :: "env \<Rightarrow> string \<Rightarrow> pyexc + bytes" where
  "zip_read_bytes env at =
     (if zip_checks_exists env then
        (if zip_is_dir at then Inl IsADirectoryError
         else if \<not> zip_exists env at then Inl FileNotFoundError
         else zipfile_read env at)
      else zipfile_read env at)"

subsection \<open>Operations on handles\<close>

definition handle_join :: "env \<Rightarrow> handle \<Rightarrow> string \<Rightarrow> handle" where
  "handle_join env h s =
     (case h of
        PathH p \<Rightarrow> PathH (joinpath p s)
      | ZipH at \<Rightarrow> ZipH (zip_joinpath env at s))"

definition read_bytes :: "env \<Rightarrow> handle \<Rightarrow> pyexc + bytes" where
  "read_bytes env h =
     (case h of
        PathH p \<Rightarrow> path_read_bytes env p
      | ZipH at \<Rightarrow> zip_read_bytes env at)"

text \<open>
  \<open>read_text(encoding='utf-8')\<close> opens the handle as \<open>read_bytes\<close> does and
  decodes what it reads.
\<close>

definition read_text :: "env \<Rightarrow> handle \<Rightarrow> pyexc + pystr" where
  "read_text env h =
     (case read_bytes env h of
        Inl e \<Rightarrow> Inl e
      | Inr data \<Rightarrow> decode_text data)"

section \<open>The module\<close>

text \<open>\<open>_resource_cache = {}\<close>: the state of the module, a dict from names to text.\<close>

type_synonym cache = "string \<rightharpoonup> pystr"

definition resource_cache_init :: cache where
  "resource_cache_init = Map.empty"

text \<open>\<open>_resource_path(filename)\<close>: two assertions, then the handle of the mode.\<close>

definition resource_path :: "env \<Rightarrow> string \<Rightarrow> pyexc + handle" where
  "resource_path env filename =
     (if posixpath_isabs filename then Inl AssertionError
      else if ''..'' \<in> set (str_split CHR ''/'' filename) then Inl AssertionError
      else if frozen env then
        Inr (PathH (joinpath (parent (parse_path (executable env))) filename))
      else Inr (handle_join env (package_files env) filename))"

text \<open>
  \<open>_resource_keyerror_workaround()\<close>: the body of the \<open>with\<close> statement is the
  argument; a \<open>KeyError\<close> it raises is raised again as \<open>FileNotFoundError\<close>.
\<close>

definition resource_keyerror_workaround :: "pyexc + 'a \<Rightarrow> pyexc + 'a" where
  "resource_keyerror_workaround body =
     (case body of
        Inl e \<Rightarrow> (if e = KeyError then Inl FileNotFoundError else Inl e)
      | Inr v \<Rightarrow> Inr v)"

text \<open>
  \<open>_glob_resources(resource_path, subdir, ext)\<close>, run to its end.  The first
  branch is taken by a \<open>pathlib.Path\<close>, the second by any other handle.
\<close>

definition glob_resources :: "env \<Rightarrow> handle \<Rightarrow> string \<Rightarrow> string \<Rightarrow> string gen" where
  "glob_resources env resource_path' subdir ext =
     (if CHR ''*'' \<in> set ext then ([], Some AssertionError)
      else if \<not> startswith ext ''.'' then ([], Some AssertionError)
      else
        (case resource_path' of
           PathH rp \<Rightarrow>
             (let path = joinpath rp subdir
              in gen_collect
                   (map (\<lambda>step. case step of
                                  Inl e \<Rightarrow> Inl e
                                | Inr full_path \<Rightarrow> map_sum id as_posix (relative_to full_path rp))
                        (glob env path (CHR ''*'' # ext))))
         | ZipH rat \<Rightarrow>
             (let path = zip_joinpath env rat subdir
              in if \<not> zip_is_dir path then ([], Some AssertionError)
                 else
                   (case zip_iterdir env path of
                      Inl e \<Rightarrow> ([], Some e)
                    | Inr subpaths \<Rightarrow>
                        (map (\<lambda>subpath. posixpath_join subdir (zip_name env subpath))
                             (filter (\<lambda>subpath. endswith (zip_name env subpath) ext) subpaths),
                         None)))))"

text \<open>
  \<open>read_file(filename)\<close> and \<open>read_file_binary(filename)\<close>.  Both run in the
  state of the module and return it with their result.
\<close>

definition read_file :: "env \<Rightarrow> string \<Rightarrow> cache \<Rightarrow> (pyexc + pystr) \<times> cache" where
  "read_file env filename resource_cache =
     (case resource_cache filename of
        Some cached \<Rightarrow> (Inr cached, resource_cache)
      | None \<Rightarrow>
          (case resource_path env filename of
             Inl e \<Rightarrow> (Inl e, resource_cache)
           | Inr path \<Rightarrow> (resource_keyerror_workaround (read_text env path), resource_cache)))"

definition read_file_binary :: "env \<Rightarrow> string \<Rightarrow> cache \<Rightarrow> (pyexc + bytes) \<times> cache" where
  "read_file_binary env filename resource_cache =
     (case resource_path env filename of
        Inl e \<Rightarrow> (Inl e, resource_cache)
      | Inr path \<Rightarrow> (resource_keyerror_workaround (read_bytes env path), resource_cache))"

text \<open>
  \<open>preload_resources()\<close>.  The inner loop stores each name the generator
  yields; an exception of \<open>read_file\<close> ends the call at once, an exception of the
  generator after the names it yielded before.  The result is the exception
  that ended the call, if any, and the state of the module.
\<close>

fun preload_names :: "env \<Rightarrow> string list \<Rightarrow> cache \<Rightarrow> pyexc option \<times> cache" where
  "preload_names env [] resource_cache = (None, resource_cache)"
| "preload_names env (name # names) resource_cache =
     (case read_file env name resource_cache of
        (Inl e, cache') \<Rightarrow> (Some e, cache')
      | (Inr content, cache') \<Rightarrow> preload_names env names (cache'(name \<mapsto> content)))"

fun preload_pairs :: "env \<Rightarrow> handle \<Rightarrow> (string \<times> string) list \<Rightarrow> cache \<Rightarrow> pyexc option \<times> cache" where
  "preload_pairs env resource_path' [] resource_cache = (None, resource_cache)"
| "preload_pairs env resource_path' ((subdir, ext) # pairs) resource_cache =
     (case glob_resources env resource_path' subdir ext of
        (names, raised) \<Rightarrow>
          (case preload_names env names resource_cache of
             (Some e, cache') \<Rightarrow> (Some e, cache')
           | (None, cache') \<Rightarrow>
               (case raised of
                  Some e \<Rightarrow> (Some e, cache')
                | None \<Rightarrow> preload_pairs env resource_path' pairs cache')))"

definition preload_dirs :: "(string \<times> string) list" where
  "preload_dirs = [(''html'', ''.html''), (''javascript'', ''.js''), (''javascript/quirks'', ''.js'')]"

definition preload_resources :: "env \<Rightarrow> cache \<Rightarrow> pyexc option \<times> cache" where
  "preload_resources env resource_cache =
     (case resource_path env [] of
        Inl e \<Rightarrow> (Some e, resource_cache)
      | Inr resource_path' \<Rightarrow> preload_pairs env resource_path' preload_dirs resource_cache)"

section \<open>Vocabulary of the properties\<close>

text \<open>
  The root of the resource tree in the mode in effect, what \<open>exists()\<close> answers
  for a handle, and the names that the loops of \<open>preload_resources\<close> enumerate.
\<close>

definition resource_root :: "env \<Rightarrow> handle" where
  "resource_root env =
     (if frozen env then PathH (parent (parse_path (executable env))) else package_files env)"

definition handle_exists :: "env \<Rightarrow> handle \<Rightarrow> bool" where
  "handle_exists env h =
     (case h of
        PathH p \<Rightarrow> path_exists env p = Inr True
      | ZipH at \<Rightarrow> zip_exists env at)"

definition in_resource_tree :: "env \<Rightarrow> string \<Rightarrow> bool" where
  "in_resource_tree env name = handle_exists env (handle_join env (resource_root env) name)"

definition valid_name :: "string \<Rightarrow> bool" where
  "valid_name name = (\<not> posixpath_isabs name \<and> ''..'' \<notin> set (str_split CHR ''/'' name))"

definition discovered_names :: "env \<Rightarrow> string list" where
  "discovered_names env =
     (case resource_path env [] of
        Inl e \<Rightarrow> []
      | Inr root \<Rightarrow> concat (map (\<lambda>(subdir, ext). fst (glob_resources env root subdir ext)) preload_dirs))"

text \<open>
  The package root of an archive is a directory handle that \<open>joinpath\<close> leaves
  alone: the top of the archive or a directory of its name list.
\<close>

definition package_root_ok :: "env \<Rightarrow> bool" where
  "package_root_ok env =
     (case package_files env of
        PathH p \<Rightarrow> True
      | ZipH at \<Rightarrow> zip_is_dir at \<and> (zip_exists env at \<or> \<not> zip_exists env (at @ ''/'')))"

text \<open>
  A handle whose target the platform reports as missing: path resolution ends
  in \<open>ENOENT\<close> (at a directory that has no entry for the next component), or the
  member name is not in the name list of the archive and, where \<open>open\<close> tests
  for directories, is not that of a directory.
\<close>

definition handle_missing :: "env \<Rightarrow> handle \<Rightarrow> bool" where
  "handle_missing env h =
     (case h of
        PathH p \<Rightarrow> stat env p = Inl FileNotFoundError
      | ZipH at \<Rightarrow> \<not> zip_exists env at \<and> \<not> (zip_checks_exists env \<and> zip_is_dir at))"

text \<open>
  UTF-8 as an encoder (RFC 3629), the reference for the decoder: the bytes of a
  Unicode scalar value, and of a text.
\<close>

definition unicode_scalar :: "nat \<Rightarrow> bool" where
  "unicode_scalar cp = (cp < 55296 \<or> (57344 \<le> cp \<and> cp < 1114112))"

definition utf8_encode_cp :: "nat \<Rightarrow> nat list" where
  "utf8_encode_cp cp =
     (if cp < 128 then [cp]
      else if cp < 2048 then [192 + cp div 64, 128 + cp mod 64]
      else if cp < 65536 then [224 + cp div 4096, 128 + cp div 64 mod 64, 128 + cp mod 64]
      else [240 + cp div 262144, 128 + cp div 4096 mod 64, 128 + cp div 64 mod 64, 128 + cp mod 64])"

definition utf8_encode :: "pystr \<Rightarrow> nat list" where
  "utf8_encode cps = concat (map utf8_encode_cp cps)"

text \<open>
  \<open>stores env c names c'\<close>: the cache \<open>c'\<close> is \<open>c\<close> with, under each of the names,
  the text that \<open>read_file\<close> returns for it in \<open>c\<close>.  A cache is coherent when
  each of its entries is what an uncached read of its name returns.
\<close>

definition stores :: "env \<Rightarrow> cache \<Rightarrow> string list \<Rightarrow> cache \<Rightarrow> bool" where
  "stores env c names c' =
     (\<forall>n. (n \<in> set names \<longrightarrow> (\<exists>v. fst (read_file env n c) = Inr v \<and> c' n = Some v))
        \<and> (n \<notin> set names \<longrightarrow> c' n = c n))"

definition cache_coherent :: "env \<Rightarrow> cache \<Rightarrow> bool" where
  "cache_coherent env c =
     (\<forall>name content. c name = Some content \<longrightarrow>
        fst (read_file env name resource_cache_init) = Inr content)"

text \<open>A name that \<open>read_file\<close> can read in a cache.\<close>

definition readable :: "env \<Rightarrow> cache \<Rightarrow> string \<Rightarrow> bool" where
  "readable env c name = (case fst (read_file env name c) of Inr content \<Rightarrow> True | Inl e \<Rightarrow> False)"

section \<open>Example deployments\<close>

text \<open>
  The same resources installed as a directory, next to a frozen executable, and
  inside a zipped package whose \<open>open\<close> does not test for existence.
\<close>

definition example_entries :: "(string \<times> fsnode) list" where
  "example_entries =
     [(''html'', Dir [(''log.html'', File ''<pre>log</pre>''), (''notes.txt'', File ''n'')]),
      (''javascript'', Dir [(''scroll.js'', File ''var y = 0;''),
                           (''quirks'', Dir [(''foo.js'', File ''var q;'')])]),
      (''img'', Dir [(''favicon.png'', File [CHR 0x89, CHR ''P'', CHR ''N'', CHR ''G''])]),
      (''doc'', Dir [(''authors.txt'', File [CHR ''Z'', CHR ''o'', CHR 0xC3, CHR 0xAB]),
                    (''changelog.txt'',
                     File [CHR 0xC3, CHR 0xA9, CHR 0x0D, CHR 0x0A, CHR 0xE2, CHR 0x82, CHR 0xAC,
                           CHR 0x0D, CHR 0xF0, CHR 0x9F, CHR 0x98, CHR 0x80, CHR 0x0D])])]"

definition env_installed :: env where
  "env_installed =
     \<lparr> frozen = False, executable = ''/usr/bin/python3'',
       package_files = PathH (parse_path ''/opt/qutebrowser''),
       fs_root = Dir [(''opt'', Dir [(''qutebrowser'', Dir example_entries)])],
       cwd = [], name_max = 255, path_max = 4096,
       zip_members = [], zip_implied_dirs = [], zip_filename = [],
       zip_checks_exists = True \<rparr>"

definition env_frozen :: env where
  "env_frozen =
     \<lparr> frozen = True, executable = ''/opt/qb/qutebrowser'',
       package_files = PathH (parse_path ''/nonexistent''),
       fs_root = Dir [(''opt'', Dir [(''qb'', Dir ((''qutebrowser'', File ''ELF'') # example_entries))])],
       cwd = [], name_max = 255, path_max = 4096,
       zip_members = [], zip_implied_dirs = [], zip_filename = [],
       zip_checks_exists = True \<rparr>"

definition env_zipped :: env where
  "env_zipped =
     \<lparr> frozen = False, executable = ''/usr/bin/python3'',
       package_files = ZipH ''qutebrowser/'',
       fs_root = Dir [],
       cwd = [], name_max = 255, path_max = 4096,
       zip_members =
         [(''qutebrowser/html/log.html'', ''<pre>log</pre>''),
          (''qutebrowser/html/notes.txt'', ''n''),
          (''qutebrowser/javascript/scroll.js'', ''var y = 0;''),
          (''qutebrowser/javascript/quirks/foo.js'', ''var q;''),
          (''qutebrowser/img/favicon.png'', [CHR 0x89, CHR ''P'', CHR ''N'', CHR ''G''])],
       zip_implied_dirs =
         [''qutebrowser/html/'', ''qutebrowser/'', ''qutebrowser/javascript/'',
          ''qutebrowser/javascript/quirks/'', ''qutebrowser/img/''],
       zip_filename = ''/opt/qutebrowser.pyz'',
       zip_checks_exists = False \<rparr>"

text \<open>The zipped package under a library whose \<open>open\<close> tests for existence.\<close>

definition env_zipped_checked :: env where
  "env_zipped_checked = env_zipped \<lparr> zip_checks_exists := True \<rparr>"

section \<open>Properties\<close>

lemma read_file_frame: "snd (read_file env name c) = c"
  by (simp add: read_file_def split: option.splits sum.splits)

subsection \<open>Decoding\<close>

text \<open>
  The decoder accepts exactly the UTF-8 encodings of texts of Unicode scalar
  values and returns the encoded text; on any other input it fails with
  \<open>UnicodeDecodeError\<close>.
\<close>

lemma split4096: "(cp::nat) div 4096 * 4096 + cp div 64 mod 64 * 64 + cp mod 64 = cp"
proof -
  define q where "q = cp div 64"
  have d: "cp div 4096 = q div 64"
    unfolding q_def by (simp add: div_mult2_eq [symmetric])
  have "q div 64 * 64 + q mod 64 = q" by simp
  then have "q div 64 * 4096 + q mod 64 * 64 = q * 64" by linarith
  moreover have "q * 64 + cp mod 64 = cp" unfolding q_def by simp
  ultimately show ?thesis unfolding d q_def [symmetric] by linarith
qed

lemma split262144:
  "(cp::nat) div 262144 * 262144 + cp div 4096 mod 64 * 4096 + cp div 64 mod 64 * 64 + cp mod 64 = cp"
proof -
  define q where "q = cp div 4096"
  have d: "cp div 262144 = q div 64"
    unfolding q_def by (simp add: div_mult2_eq [symmetric])
  have "q div 64 * 64 + q mod 64 = q" by simp
  then have "q div 64 * 262144 + q mod 64 * 4096 = q * 4096" by linarith
  moreover have "q * 4096 + cp div 64 mod 64 * 64 + cp mod 64 = cp"
    unfolding q_def using split4096 [of cp] by simp
  ultimately show ?thesis unfolding d q_def [symmetric] by linarith
qed

lemma join64:
  assumes "y < (64::nat)"
  shows "(x * 64 + y) div 64 = x" and "(x * 64 + y) mod 64 = y"
  using assms by simp_all

lemma join4096:
  assumes "y < (64::nat)" and "z < 64"
  shows "(x * 4096 + y * 64 + z) div 4096 = x"
    and "(x * 4096 + y * 64 + z) div 64 mod 64 = y"
    and "(x * 4096 + y * 64 + z) mod 64 = z"
proof -
  let ?n = "x * 4096 + y * 64 + z"
  have e: "(x * 64 + y) * 64 + z = ?n" by simp
  note j = join64 [OF assms(2), of "x * 64 + y", unfolded e]
  show "?n mod 64 = z" by (rule j(2))
  show "?n div 64 mod 64 = y" unfolding j(1) by (rule join64(2) [OF assms(1)])
  have "?n div 4096 = ?n div 64 div 64"
    by (simp add: div_mult2_eq [symmetric])
  then show "?n div 4096 = x" unfolding j(1) by (simp only: join64(1) [OF assms(1)])
qed

lemma join262144:
  assumes "y < (64::nat)" and "z < 64" and "w < 64"
  shows "(x * 262144 + y * 4096 + z * 64 + w) div 262144 = x"
    and "(x * 262144 + y * 4096 + z * 64 + w) div 4096 mod 64 = y"
    and "(x * 262144 + y * 4096 + z * 64 + w) div 64 mod 64 = z"
    and "(x * 262144 + y * 4096 + z * 64 + w) mod 64 = w"
proof -
  let ?n = "x * 262144 + y * 4096 + z * 64 + w"
  let ?m = "x * 4096 + y * 64 + z"
  have e: "?m * 64 + w = ?n" by simp
  note j = join64 [OF assms(3), of ?m, unfolded e]
  show "?n mod 64 = w" by (rule j(2))
  show "?n div 64 mod 64 = z" unfolding j(1) by (rule join4096(3) [OF assms(1,2)])
  have f: "?n div 4096 = ?n div 64 div 64"
    by (simp add: div_mult2_eq [symmetric])
  have g: "?m div 64 = x * 64 + y"
  proof -
    have "(x * 64 + y) * 64 + z = ?m" by simp
    from join64(1) [OF assms(2), of "x * 64 + y", unfolded this] show ?thesis .
  qed
  have h: "?n div 4096 = x * 64 + y" unfolding f j(1) by (rule g)
  show "?n div 4096 mod 64 = y" unfolding h by (rule join64(2) [OF assms(1)])
  have "?n div 262144 = ?n div 4096 div 64"
    by (simp add: div_mult2_eq [symmetric])
  then show "?n div 262144 = x" unfolding h by (simp only: join64(1) [OF assms(1)])
qed

lemma utf8_next_encode:
  assumes "unicode_scalar cp"
  shows "\<exists>b bs. utf8_encode_cp cp = b # bs \<and> utf8_next b (bs @ rest) = Some (cp, length bs)"
proof -
  consider "cp < 128" | "128 \<le> cp" "cp < 2048" | "2048 \<le> cp" "cp < 65536" | "65536 \<le> cp"
    by linarith
  then show ?thesis
  proof cases
    case 1
    then show ?thesis by (simp add: utf8_encode_cp_def utf8_next_def)
  next
    case 2
    define x y where "x = cp div 64" and "y = cp mod 64"
    have b: "2 \<le> x" "x < 32" "y < 64" and e: "x * 64 + y = cp"
      using 2 by (simp_all add: x_def y_def less_mult_imp_div_less less_eq_div_iff_mult_less_eq)
    from 2 have enc: "utf8_encode_cp cp = [192 + x, 128 + y]"
      by (simp add: utf8_encode_cp_def x_def y_def)
    from b e have "utf8_next (192 + x) ((128 + y) # rest) = Some (cp, 1)"
      by (simp add: utf8_next_def is_cont_def)
    with enc show ?thesis by simp
  next
    case 3
    define x y z where "x = cp div 4096" and "y = cp div 64 mod 64" and "z = cp mod 64"
    have b: "x < 16" "y < 64" "z < 64"
      using 3 by (simp_all add: x_def y_def z_def less_mult_imp_div_less)
    have e: "x * 4096 + y * 64 + z = cp"
      unfolding x_def y_def z_def by (rule split4096)
    from 3 have enc: "utf8_encode_cp cp = [224 + x, 128 + y, 128 + z]"
      by (simp add: utf8_encode_cp_def x_def y_def z_def)
    from 3 assms have ns: "\<not> (55296 \<le> cp \<and> cp < 57344)"
      by (auto simp: unicode_scalar_def)
    from b e 3 ns have "utf8_next (224 + x) ((128 + y) # (128 + z) # rest) = Some (cp, 2)"
      by (simp add: utf8_next_def is_cont_def)
    with enc show ?thesis by simp
  next
    case 4
    with assms have lt: "cp < 1114112" by (simp add: unicode_scalar_def)
    define x y z w where "x = cp div 262144" and "y = cp div 4096 mod 64"
      and "z = cp div 64 mod 64" and "w = cp mod 64"
    have b: "x < 5" "y < 64" "z < 64" "w < 64"
      using lt by (simp_all add: x_def y_def z_def w_def less_mult_imp_div_less)
    have e: "x * 262144 + y * 4096 + z * 64 + w = cp"
      unfolding x_def y_def z_def w_def by (rule split262144)
    from 4 have enc: "utf8_encode_cp cp = [240 + x, 128 + y, 128 + z, 128 + w]"
      by (simp add: utf8_encode_cp_def x_def y_def z_def w_def)
    from b e 4 lt
    have "utf8_next (240 + x) ((128 + y) # (128 + z) # (128 + w) # rest) = Some (cp, 3)"
      by (simp add: utf8_next_def is_cont_def)
    with enc show ?thesis by simp
  qed
qed

lemma utf8_decode_encode_cp:
  assumes "unicode_scalar cp"
  shows "utf8_decode (utf8_encode_cp cp @ rest)
       = (case utf8_decode rest of Inl e \<Rightarrow> Inl e | Inr cps \<Rightarrow> Inr (cp # cps))"
proof -
  from utf8_next_encode [OF assms, of rest] obtain b bs
    where enc: "utf8_encode_cp cp = b # bs" and nx: "utf8_next b (bs @ rest) = Some (cp, length bs)"
    by blast
  then show ?thesis by simp
qed

lemma utf8_decode_encode:
  "list_all unicode_scalar cps \<Longrightarrow> utf8_decode (utf8_encode cps) = Inr cps"
  by (induction cps) (simp_all add: utf8_encode_def utf8_decode_encode_cp)

lemma utf8_next_sound:
  assumes "utf8_next b0 rest = Some (cp, k)"
  shows "unicode_scalar cp \<and> k \<le> length rest \<and> utf8_encode_cp cp = b0 # take k rest"
proof -
  consider "b0 < 128" | "194 \<le> b0" "b0 < 224" | "224 \<le> b0" "b0 < 240" | "240 \<le> b0" "b0 < 245"
    | "128 \<le> b0" "b0 < 194" | "245 \<le> b0"
    by linarith
  then show ?thesis
  proof cases
    case 1
    with assms show ?thesis
      by (auto simp: utf8_next_def unicode_scalar_def utf8_encode_cp_def)
  next
    case 2
    with assms obtain b1 tl1 where r: "rest = b1 # tl1" and c1: "is_cont b1"
      and cp: "cp = (b0 - 192) * 64 + (b1 - 128)" and k: "k = 1"
      by (auto simp: utf8_next_def split: list.splits if_splits)
    define x y where "x = b0 - 192" and "y = b1 - 128"
    from 2 c1 have b: "b0 = 192 + x" "b1 = 128 + y" "2 \<le> x" "x < 32" "y < 64"
      by (auto simp: x_def y_def is_cont_def)
    have cpe: "cp = x * 64 + y" by (simp add: cp x_def y_def)
    from b have rng: "128 \<le> cp" "cp < 2048" unfolding cpe by linarith+
    from rng have "utf8_encode_cp cp = [192 + cp div 64, 128 + cp mod 64]"
      by (simp add: utf8_encode_cp_def)
    with b(5) have "utf8_encode_cp cp = [b0, b1]"
      unfolding cpe by (simp add: b(1,2))
    with rng r k show ?thesis by (simp add: unicode_scalar_def)
  next
    case 3
    with assms obtain b1 b2 tl2 where r: "rest = b1 # b2 # tl2" and c: "is_cont b1" "is_cont b2"
      and cp: "cp = (b0 - 224) * 4096 + (b1 - 128) * 64 + (b2 - 128)" and k: "k = 2"
      and lo: "2048 \<le> cp" and ns: "\<not> (55296 \<le> cp \<and> cp < 57344)"
      by (auto simp: utf8_next_def Let_def split: list.splits if_splits)
    define x y z where "x = b0 - 224" and "y = b1 - 128" and "z = b2 - 128"
    from 3 c have b: "b0 = 224 + x" "b1 = 128 + y" "b2 = 128 + z" "x < 16" "y < 64" "z < 64"
      by (auto simp: x_def y_def z_def is_cont_def)
    have cpe: "cp = x * 4096 + y * 64 + z" by (simp add: cp x_def y_def z_def)
    from b have hi: "cp < 65536" unfolding cpe by linarith
    from lo hi have "utf8_encode_cp cp = [224 + cp div 4096, 128 + cp div 64 mod 64, 128 + cp mod 64]"
      by (simp add: utf8_encode_cp_def)
    then have "utf8_encode_cp cp = [b0, b1, b2]"
      unfolding cpe by (simp only: join4096 [OF b(5,6)] b(1,2,3))
    with lo hi ns r k show ?thesis by (auto simp: unicode_scalar_def)
  next
    case 4
    with assms obtain b1 b2 b3 tl3 where r: "rest = b1 # b2 # b3 # tl3"
      and c: "is_cont b1" "is_cont b2" "is_cont b3"
      and cp: "cp = (b0 - 240) * 262144 + (b1 - 128) * 4096 + (b2 - 128) * 64 + (b3 - 128)"
      and k: "k = 3" and lo: "65536 \<le> cp" and hi: "cp < 1114112"
      by (auto simp: utf8_next_def Let_def split: list.splits if_splits)
    define x y z w where "x = b0 - 240" and "y = b1 - 128" and "z = b2 - 128" and "w = b3 - 128"
    from 4 c have b: "b0 = 240 + x" "b1 = 128 + y" "b2 = 128 + z" "b3 = 128 + w"
        "y < 64" "z < 64" "w < 64"
      by (auto simp: x_def y_def z_def w_def is_cont_def)
    have cpe: "cp = x * 262144 + y * 4096 + z * 64 + w" by (simp add: cp x_def y_def z_def w_def)
    from lo have "utf8_encode_cp cp
        = [240 + cp div 262144, 128 + cp div 4096 mod 64, 128 + cp div 64 mod 64, 128 + cp mod 64]"
      by (simp add: utf8_encode_cp_def)
    then have "utf8_encode_cp cp = [b0, b1, b2, b3]"
      unfolding cpe by (simp only: join262144 [OF b(5,6,7)] b(1,2,3,4))
    with lo hi r k show ?thesis by (auto simp: unicode_scalar_def)
  next
    case 5
    with assms show ?thesis by (simp add: utf8_next_def)
  next
    case 6
    with assms show ?thesis by (simp add: utf8_next_def)
  qed
qed

lemma utf8_decode_sound:
  "utf8_decode bs = Inr cps \<Longrightarrow> list_all unicode_scalar cps \<and> bs = utf8_encode cps"
proof (induction bs arbitrary: cps rule: utf8_decode.induct)
  case 1
  then show ?case by (simp add: utf8_encode_def)
next
  case (2 b0 bs)
  from "2.prems" obtain cp k cps' where nx: "utf8_next b0 bs = Some (cp, k)"
    and dr: "utf8_decode (drop k bs) = Inr cps'" and cps: "cps = cp # cps'"
    by (auto split: option.splits sum.splits)
  from "2.IH" [OF nx refl dr]
  have ih: "list_all unicode_scalar cps'" "drop k bs = utf8_encode cps'" by simp_all
  from utf8_next_sound [OF nx]
  have s: "unicode_scalar cp" "utf8_encode_cp cp = b0 # take k bs" by simp_all
  have "b0 # bs = (b0 # take k bs) @ drop k bs" by simp
  with ih s cps show ?case by (simp add: utf8_encode_def)
qed

lemma utf8_decode_error: "utf8_decode bs = Inl e \<Longrightarrow> e = UnicodeDecodeError"
  by (induction bs rule: utf8_decode.induct) (auto split: option.splits sum.splits)

lemma utf8_decode_iff:
  "(utf8_decode bs = Inr cps) = (list_all unicode_scalar cps \<and> bs = utf8_encode cps)"
  using utf8_decode_sound utf8_decode_encode by blast

lemma utf8_decode_reject:
  assumes "\<forall>cps. list_all unicode_scalar cps \<longrightarrow> bs \<noteq> utf8_encode cps"
  shows "utf8_decode bs = Inl UnicodeDecodeError"
proof (cases "utf8_decode bs")
  case (Inl e)
  with utf8_decode_error [OF Inl] show ?thesis by simp
next
  case (Inr cps)
  with utf8_decode_sound [OF Inr] assms show ?thesis by blast
qed

lemma universal_newlines_id: "13 \<notin> set t \<Longrightarrow> universal_newlines t = t"
  by (induction t rule: universal_newlines.induct) auto

lemma universal_newlines_no_cr: "13 \<notin> set (universal_newlines t)"
  by (induction t rule: universal_newlines.induct) auto

lemma decode_text_encoded:
  "list_all unicode_scalar cps \<Longrightarrow> map of_char data = utf8_encode cps \<Longrightarrow>
   decode_text data = Inr (universal_newlines cps)"
  by (simp add: decode_text_def utf8_decode_encode)

lemma decode_text_reject:
  "\<forall>t. list_all unicode_scalar t \<longrightarrow> map of_char data \<noteq> utf8_encode t \<Longrightarrow>
   decode_text data = Inl UnicodeDecodeError"
  by (simp add: decode_text_def utf8_decode_reject)

lemma workaround_decode_text: "resource_keyerror_workaround (decode_text data) = decode_text data"
proof (cases "utf8_decode (map of_char data)")
  case (Inl e)
  with utf8_decode_error [OF Inl] show ?thesis
    by (simp add: decode_text_def resource_keyerror_workaround_def)
next
  case (Inr cps)
  then show ?thesis by (simp add: decode_text_def resource_keyerror_workaround_def)
qed

subsection \<open>The readers and the resolver\<close>

text \<open>
  C1.  \<open>read_file(name)\<close> answers from the cache when the name is a key of it,
  whatever the environment is (no resolution, no read).  Otherwise it resolves
  the name and reads the bytes of the handle; when the bytes are the UTF-8
  encoding of a text it returns that text, with the line ends of text mode
  (the text itself when it has no carriage return), and when they are the
  encoding of no text it fails with \<open>UnicodeDecodeError\<close>.  An exception of the
  resolver or of the read ends the call (a \<open>KeyError\<close> of the read as
  \<open>FileNotFoundError\<close>).  In every case the cache after the call is the cache
  before it.
\<close>

theorem read_file_hit_or_direct_read:
  "(resource_cache name = Some cached \<longrightarrow>
      read_file env name resource_cache = (Inr cached, resource_cache)
      \<and> read_file env' name resource_cache = read_file env name resource_cache)
   \<and> (resource_cache name = None \<and> resource_path env name = Inr h
        \<and> read_bytes env h = Inr data \<longrightarrow>
      (list_all unicode_scalar cps \<and> map of_char data = utf8_encode cps \<longrightarrow>
         read_file env name resource_cache = (Inr (universal_newlines cps), resource_cache)
         \<and> (13 \<notin> set cps \<longrightarrow> read_file env name resource_cache = (Inr cps, resource_cache)))
      \<and> ((\<forall>t. list_all unicode_scalar t \<longrightarrow> map of_char data \<noteq> utf8_encode t) \<longrightarrow>
         read_file env name resource_cache = (Inl UnicodeDecodeError, resource_cache)))
   \<and> (resource_cache name = None \<and> resource_path env name = Inl e \<longrightarrow>
        read_file env name resource_cache = (Inl e, resource_cache))
   \<and> (resource_cache name = None \<and> resource_path env name = Inr h
        \<and> read_bytes env h = Inl e \<longrightarrow>
        read_file env name resource_cache
          = (Inl (if e = KeyError then FileNotFoundError else e), resource_cache))
   \<and> snd (read_file env name resource_cache) = resource_cache"
proof -
  have unresolved: "resource_cache name = None \<and> resource_path env name = Inl e \<longrightarrow>
      read_file env name resource_cache = (Inl e, resource_cache)"
    by (simp add: read_file_def)
  have unread: "resource_cache name = None \<and> resource_path env name = Inr h
      \<and> read_bytes env h = Inl e \<longrightarrow>
      read_file env name resource_cache
        = (Inl (if e = KeyError then FileNotFoundError else e), resource_cache)"
    by (simp add: read_file_def read_text_def resource_keyerror_workaround_def)
  have hit: "resource_cache name = Some cached \<longrightarrow>
      read_file env name resource_cache = (Inr cached, resource_cache)
      \<and> read_file env' name resource_cache = read_file env name resource_cache"
    by (simp add: read_file_def)
  have miss: "read_file env name resource_cache = (decode_text data, resource_cache)"
    if "resource_cache name = None" "resource_path env name = Inr h" "read_bytes env h = Inr data"
    using that by (simp add: read_file_def read_text_def workaround_decode_text)
  have ok: "read_file env name resource_cache = (Inr (universal_newlines cps), resource_cache)
      \<and> (13 \<notin> set cps \<longrightarrow> read_file env name resource_cache = (Inr cps, resource_cache))"
    if "resource_cache name = None" "resource_path env name = Inr h" "read_bytes env h = Inr data"
      "list_all unicode_scalar cps" "map of_char data = utf8_encode cps"
    using miss [OF that(1-3)] decode_text_encoded [OF that(4,5)]
    by (simp add: universal_newlines_id)
  have bad: "read_file env name resource_cache = (Inl UnicodeDecodeError, resource_cache)"
    if "resource_cache name = None" "resource_path env name = Inr h" "read_bytes env h = Inr data"
      "\<forall>t. list_all unicode_scalar t \<longrightarrow> map of_char data \<noteq> utf8_encode t"
    using miss [OF that(1-3)] decode_text_reject [OF that(4)] by simp
  from hit ok bad unresolved unread read_file_frame [of env name resource_cache]
  show ?thesis by blast
qed

theorem read_file_hit_or_direct_read_witness:
  "read_file env_frozen ''/etc/motd'' [''/etc/motd'' \<mapsto> [104, 105]]
     = (Inr [104, 105], [''/etc/motd'' \<mapsto> [104, 105]])
   \<and> read_file env_installed ''doc/changelog.txt'' Map.empty
     = (Inr [233, 10, 8364, 10, 128512, 10], Map.empty)
   \<and> read_file env_frozen ''doc/authors.txt'' Map.empty = (Inr [90, 111, 235], Map.empty)
   \<and> read_file env_installed ''img/favicon.png'' Map.empty = (Inl UnicodeDecodeError, Map.empty)"
proof -
  let ?changelog = "[CHR 0xC3, CHR 0xA9, CHR 0x0D, CHR 0x0A, CHR 0xE2, CHR 0x82, CHR 0xAC,
                     CHR 0x0D, CHR 0xF0, CHR 0x9F, CHR 0x98, CHR 0x80, CHR 0x0D]"
  let ?authors = "[CHR ''Z'', CHR ''o'', CHR 0xC3, CHR 0xAB]"
  let ?icon = "[CHR 0x89, CHR ''P'', CHR ''N'', CHR ''G'']"
  have r1: "resource_path env_installed ''doc/changelog.txt''
        = Inr (PathH \<lparr>p_root = ''/'', p_parts = [''opt'', ''qutebrowser'', ''doc'', ''changelog.txt'']\<rparr>)"
    by code_simp
  have b1: "read_bytes env_installed
             (PathH \<lparr>p_root = ''/'', p_parts = [''opt'', ''qutebrowser'', ''doc'', ''changelog.txt'']\<rparr>)
        = Inr ?changelog"
    by code_simp
  have e1: "list_all unicode_scalar [233, 13, 10, 8364, 13, 128512, 13]
        \<and> map of_char ?changelog = utf8_encode [233, 13, 10, 8364, 13, 128512, 13]"
    by (simp add: unicode_scalar_def utf8_encode_def utf8_encode_cp_def)
  have n1: "universal_newlines [233, 13, 10, 8364, 13, 128512, 13] = [233, 10, 8364, 10, 128512, 10]"
    by simp
  have r2: "resource_path env_frozen ''doc/authors.txt''
        = Inr (PathH \<lparr>p_root = ''/'', p_parts = [''opt'', ''qb'', ''doc'', ''authors.txt'']\<rparr>)"
    by code_simp
  have b2: "read_bytes env_frozen
             (PathH \<lparr>p_root = ''/'', p_parts = [''opt'', ''qb'', ''doc'', ''authors.txt'']\<rparr>)
        = Inr ?authors"
    by code_simp
  have e2: "list_all unicode_scalar [90, 111, 235]
        \<and> map of_char ?authors = utf8_encode [90, 111, 235] \<and> 13 \<notin> set [90, 111, 235 :: nat]"
    by (simp add: unicode_scalar_def utf8_encode_def utf8_encode_cp_def)
  have r3: "resource_path env_installed ''img/favicon.png''
        = Inr (PathH \<lparr>p_root = ''/'', p_parts = [''opt'', ''qutebrowser'', ''img'', ''favicon.png'']\<rparr>)"
    by code_simp
  have b3: "read_bytes env_installed
             (PathH \<lparr>p_root = ''/'', p_parts = [''opt'', ''qutebrowser'', ''img'', ''favicon.png'']\<rparr>)
        = Inr ?icon"
    by code_simp
  have d3: "utf8_decode (map of_char ?icon) = Inl UnicodeDecodeError"
    by (simp add: utf8_next_def)
  have e3: "\<forall>t. list_all unicode_scalar t \<longrightarrow> map of_char ?icon \<noteq> utf8_encode t"
  proof (intro allI impI notI)
    fix t
    assume sc: "list_all unicode_scalar t" and eq: "map of_char ?icon = utf8_encode t"
    have "utf8_decode (map of_char ?icon) = Inr t"
      unfolding eq using sc by (rule utf8_decode_encode)
    then have "Inl UnicodeDecodeError = (Inr t :: pyexc + pystr)"
      unfolding d3 .
    then show False by simp
  qed
  have none: "Map.empty n = None" for n :: string by simp
  note hit = read_file_hit_or_direct_read
      [of "[''/etc/motd'' \<mapsto> [104, 105]]" "''/etc/motd''" "[104, 105]" env_frozen env_frozen]
  note m1 = read_file_hit_or_direct_read
      [where resource_cache = Map.empty and name = "''doc/changelog.txt''" and env = env_installed
         and data = ?changelog and cps = "[233, 13, 10, 8364, 13, 128512, 13]"
         and h = "PathH \<lparr>p_root = ''/'', p_parts = [''opt'', ''qutebrowser'', ''doc'', ''changelog.txt'']\<rparr>"]
  note m2 = read_file_hit_or_direct_read
      [where resource_cache = Map.empty and name = "''doc/authors.txt''" and env = env_frozen
         and data = ?authors and cps = "[90, 111, 235]"
         and h = "PathH \<lparr>p_root = ''/'', p_parts = [''opt'', ''qb'', ''doc'', ''authors.txt'']\<rparr>"]
  note m3 = read_file_hit_or_direct_read
      [where resource_cache = Map.empty and name = "''img/favicon.png''" and env = env_installed
         and data = ?icon
         and h = "PathH \<lparr>p_root = ''/'', p_parts = [''opt'', ''qutebrowser'', ''img'', ''favicon.png'']\<rparr>"]
  have w0: "read_file env_frozen ''/etc/motd'' [''/etc/motd'' \<mapsto> [104, 105]]
      = (Inr [104, 105], [''/etc/motd'' \<mapsto> [104, 105]])"
    using hit by simp
  have w1: "read_file env_installed ''doc/changelog.txt'' Map.empty
      = (Inr [233, 10, 8364, 10, 128512, 10], Map.empty)"
    using m1 r1 b1 e1 none unfolding n1 [symmetric] by blast
  have w2: "read_file env_frozen ''doc/authors.txt'' Map.empty = (Inr [90, 111, 235], Map.empty)"
    using m2 r2 b2 e2 none by blast
  have w3: "read_file env_installed ''img/favicon.png'' Map.empty = (Inl UnicodeDecodeError, Map.empty)"
    using m3 r3 b3 e3 none by blast
  from w0 w1 w2 w3 show ?thesis by blast
qed

lemma resource_path_valid:
  "valid_name name \<Longrightarrow> resource_path env name = Inr (handle_join env (resource_root env) name)"
  by (simp add: valid_name_def resource_path_def resource_root_def handle_join_def)

lemma valid_name_empty: "valid_name []"
  by (simp add: valid_name_def posixpath_isabs_def startswith_def)

lemma parse_path_relative:
  "\<not> posixpath_isabs name \<Longrightarrow>
   parse_path name = \<lparr> p_root = [], p_parts = filter (\<lambda>x. x \<noteq> [] \<and> x \<noteq> ''.'') (str_split CHR ''/'' name) \<rparr>"
  by (cases name) (auto simp: parse_path_def splitroot_def posixpath_isabs_def startswith_def)

lemma joinpath_empty: "joinpath p [] = p"
  by (simp add: joinpath_def parse_path_def splitroot_def)

text \<open>
  C3.  \<open>_resource_path\<close> fails with \<open>AssertionError\<close> whenever the name is absolute
  or one of its slash-separated segments is \<open>..\<close>; for every other name it
  returns a handle.
\<close>

theorem resource_path_asserts:
  "(posixpath_isabs name \<or> ''..'' \<in> set (str_split CHR ''/'' name) \<longrightarrow>
      resource_path env name = Inl AssertionError)
   \<and> (\<not> posixpath_isabs name \<and> ''..'' \<notin> set (str_split CHR ''/'' name) \<longrightarrow>
      (\<exists>h. resource_path env name = Inr h))"
  by (simp add: resource_path_def)

theorem resource_path_asserts_witness:
  "resource_path env_installed ''/etc/passwd'' = Inl AssertionError
   \<and> resource_path env_frozen ''html/../../secret'' = Inl AssertionError
   \<and> (\<exists>h. resource_path env_zipped ''html/log.html'' = Inr h)"
proof -
  have a: "posixpath_isabs ''/etc/passwd''" by code_simp
  have b: "''..'' \<in> set (str_split CHR ''/'' ''html/../../secret'')" by code_simp
  have c: "\<not> posixpath_isabs ''html/log.html'' \<and> ''..'' \<notin> set (str_split CHR ''/'' ''html/log.html'')"
    by code_simp
  show ?thesis
    using resource_path_asserts [of "''/etc/passwd''" env_installed]
          resource_path_asserts [of "''html/../../secret''" env_frozen]
          resource_path_asserts [of "''html/log.html''" env_zipped] a b c
    by blast
qed

text \<open>
  C4.  For a valid relative name the handle is the parent directory of the
  executable joined with the name in frozen mode, and the package root joined
  with the name otherwise; joining appends the non-empty, non-\<open>.\<close> segments of
  the name to the directory it is joined to.  The empty name resolves to the
  root of the resource tree of the mode in effect.
\<close>

theorem resource_path_by_mode:
  assumes "valid_name name"
  shows "(frozen env \<longrightarrow>
            resource_path env name = Inr (PathH (joinpath (parent (parse_path (executable env))) name)))
       \<and> (\<not> frozen env \<longrightarrow>
            resource_path env name = Inr (handle_join env (package_files env) name))
       \<and> joinpath p name =
            \<lparr> p_root = p_root p,
              p_parts = p_parts p @ filter (\<lambda>x. x \<noteq> [] \<and> x \<noteq> ''.'') (str_split CHR ''/'' name) \<rparr>
       \<and> (package_root_ok env \<longrightarrow> resource_path env [] = Inr (resource_root env))"
proof -
  from assms have rel: "\<not> posixpath_isabs name" and nopar: "''..'' \<notin> set (str_split CHR ''/'' name)"
    by (simp_all add: valid_name_def)
  have m1: "frozen env \<longrightarrow>
      resource_path env name = Inr (PathH (joinpath (parent (parse_path (executable env))) name))"
    using rel nopar by (simp add: resource_path_def)
  have m2: "\<not> frozen env \<longrightarrow> resource_path env name = Inr (handle_join env (package_files env) name)"
    using rel nopar by (simp add: resource_path_def)
  have j: "joinpath p name =
        \<lparr> p_root = p_root p,
          p_parts = p_parts p @ filter (\<lambda>x. x \<noteq> [] \<and> x \<noteq> ''.'') (str_split CHR ''/'' name) \<rparr>"
    by (simp add: joinpath_def parse_path_relative [OF rel])
  have e: "resource_path env [] = Inr (resource_root env)" if ok: "package_root_ok env"
  proof (cases "package_files env")
    case (PathH q)
    then show ?thesis
      by (simp add: resource_path_valid [OF valid_name_empty] handle_join_def resource_root_def
            joinpath_empty)
  next
    case (ZipH at)
    with ok have d: "zip_is_dir at" and r: "zip_exists env at \<or> \<not> zip_exists env (at @ ''/'')"
      by (simp_all add: package_root_ok_def)
    from d have "posixpath_join at [] = at"
      by (auto simp: posixpath_join_def zip_is_dir_def startswith_def)
    moreover from r have "resolve_dir env at = at"
      by (auto simp: resolve_dir_def zip_exists_def Let_def)
    ultimately have "zip_joinpath env at [] = at"
      by (simp add: zip_joinpath_def)
    with ZipH show ?thesis
      by (simp add: resource_path_valid [OF valid_name_empty] handle_join_def resource_root_def
            joinpath_empty)
  qed
  from m1 m2 j e show ?thesis by blast
qed

theorem resource_path_by_mode_witness:
  "resource_path env_frozen ''html/log.html''
     = Inr (PathH \<lparr>p_root = ''/'', p_parts = [''opt'', ''qb'', ''html'', ''log.html'']\<rparr>)
   \<and> resource_path env_zipped ''html/log.html'' = Inr (ZipH ''qutebrowser/html/log.html'')
   \<and> resource_path env_zipped [] = Inr (ZipH ''qutebrowser/'')
   \<and> resource_path env_frozen [] = Inr (PathH \<lparr>p_root = ''/'', p_parts = [''opt'', ''qb'']\<rparr>)"
proof -
  have v: "valid_name ''html/log.html''" by code_simp
  have f: "frozen env_frozen" "\<not> frozen env_zipped" by code_simp+
  have ok: "package_root_ok env_zipped" "package_root_ok env_frozen" by code_simp+
  have j1: "PathH (joinpath (parent (parse_path (executable env_frozen))) ''html/log.html'')
      = PathH \<lparr>p_root = ''/'', p_parts = [''opt'', ''qb'', ''html'', ''log.html'']\<rparr>"
    by code_simp
  have j2: "handle_join env_zipped (package_files env_zipped) ''html/log.html''
      = ZipH ''qutebrowser/html/log.html''"
    by code_simp
  have r1: "resource_root env_zipped = ZipH ''qutebrowser/''" by code_simp
  have r2: "resource_root env_frozen = PathH \<lparr>p_root = ''/'', p_parts = [''opt'', ''qb'']\<rparr>"
    by code_simp
  show ?thesis
    using resource_path_by_mode [OF v, of env_frozen] resource_path_by_mode [OF v, of env_zipped]
      f ok j1 j2 r1 r2
    by simp
qed

text \<open>
  C10.  When the name is absolute or has a \<open>..\<close> segment the resolver fails with
  \<open>AssertionError\<close>; \<open>read_file\<close> still returns the cached text when the name is a
  key of the cache, and fails with that \<open>AssertionError\<close> only when it is not.
\<close>

theorem read_file_hit_skips_assertions:
  assumes "posixpath_isabs name \<or> ''..'' \<in> set (str_split CHR ''/'' name)"
  shows "resource_path env name = Inl AssertionError
       \<and> (resource_cache name = Some cached \<longrightarrow>
            read_file env name resource_cache = (Inr cached, resource_cache))
       \<and> (resource_cache name = None \<longrightarrow>
            read_file env name resource_cache = (Inl AssertionError, resource_cache))"
  using assms by (auto simp: read_file_def resource_path_def)

theorem read_file_hit_skips_assertions_witness:
  "resource_path env_installed ''/etc/motd'' = Inl AssertionError
   \<and> read_file env_installed ''/etc/motd'' [''/etc/motd'' \<mapsto> [104, 105]]
       = (Inr [104, 105], [''/etc/motd'' \<mapsto> [104, 105]])
   \<and> read_file env_zipped ''html/../x'' [''/etc/motd'' \<mapsto> [104, 105]]
       = (Inl AssertionError, [''/etc/motd'' \<mapsto> [104, 105]])"
proof -
  have a: "posixpath_isabs ''/etc/motd'' \<or> ''..'' \<in> set (str_split CHR ''/'' ''/etc/motd'')"
    by code_simp
  have b: "posixpath_isabs ''html/../x'' \<or> ''..'' \<in> set (str_split CHR ''/'' ''html/../x'')"
    by code_simp
  show ?thesis
    using read_file_hit_skips_assertions [OF a, of env_installed "[''/etc/motd'' \<mapsto> [104, 105]]" "[104, 105]"]
          read_file_hit_skips_assertions [OF b, of env_zipped "[''/etc/motd'' \<mapsto> [104, 105]]"]
    by simp
qed

text \<open>
  C9.  \<open>read_file_binary(name)\<close> returns the same result in every cache, leaves
  the cache as it was, is not affected by a \<open>preload_resources()\<close> before it, and
  returns the bytes of the handle the name resolves to.
\<close>

theorem read_file_binary_ignores_cache:
  "fst (read_file_binary env name cache1) = fst (read_file_binary env name cache2)
   \<and> snd (read_file_binary env name resource_cache) = resource_cache
   \<and> fst (read_file_binary env name (snd (preload_resources env resource_cache)))
       = fst (read_file_binary env name resource_cache)
   \<and> (resource_path env name = Inr h \<and> read_bytes env h = Inr data \<longrightarrow>
        read_file_binary env name resource_cache = (Inr data, resource_cache))"
  by (simp add: read_file_binary_def resource_keyerror_workaround_def split: sum.splits)

theorem read_file_binary_ignores_cache_witness:
  "read_file_binary env_frozen ''img/favicon.png'' [''img/favicon.png'' \<mapsto> [1, 2]]
     = (Inr [CHR 0x89, CHR ''P'', CHR ''N'', CHR ''G''], [''img/favicon.png'' \<mapsto> [1, 2]])"
proof -
  have r: "resource_path env_frozen ''img/favicon.png''
        = Inr (PathH \<lparr>p_root = ''/'', p_parts = [''opt'', ''qb'', ''img'', ''favicon.png'']\<rparr>)"
    by code_simp
  have b: "read_bytes env_frozen (PathH \<lparr>p_root = ''/'', p_parts = [''opt'', ''qb'', ''img'', ''favicon.png'']\<rparr>)
        = Inr [CHR 0x89, CHR ''P'', CHR ''N'', CHR ''G'']"
    by code_simp
  show ?thesis
    using read_file_binary_ignores_cache
            [of env_frozen "''img/favicon.png''" Map.empty Map.empty "[''img/favicon.png'' \<mapsto> [1, 2]]"
                "PathH \<lparr>p_root = ''/'', p_parts = [''opt'', ''qb'', ''img'', ''favicon.png'']\<rparr>"
                "[CHR 0x89, CHR ''P'', CHR ''N'', CHR ''G'']"] r b
    by simp
qed

subsection \<open>Missing resources\<close>

lemma workaround_no_keyerror: "resource_keyerror_workaround r \<noteq> Inl KeyError"
  by (simp add: resource_keyerror_workaround_def split: sum.splits)

lemma zip_missing_member:
  "\<not> zip_exists env at \<Longrightarrow> zipfile_read env at = Inl KeyError"
proof -
  assume "\<not> zip_exists env at"
  then have "at \<notin> fst ` set (rev (zip_members env))"
    by (auto simp: zip_exists_def zip_namelist_def)
  then have "map_of (rev (zip_members env)) at = None"
    by (simp add: map_of_eq_None_iff)
  then show ?thesis by (simp add: zipfile_read_def)
qed

lemma read_bytes_missing:
  "handle_missing env h \<Longrightarrow> resource_keyerror_workaround (read_bytes env h) = Inl FileNotFoundError"
  by (cases h)
     (auto simp: handle_missing_def read_bytes_def path_read_bytes_def zip_read_bytes_def
                 resource_keyerror_workaround_def zip_missing_member)

lemma read_text_missing:
  "handle_missing env h \<Longrightarrow> resource_keyerror_workaround (read_text env h) = Inl FileNotFoundError"
  by (cases h)
     (auto simp: handle_missing_def read_bytes_def read_text_def path_read_bytes_def zip_read_bytes_def
                 resource_keyerror_workaround_def zip_missing_member)

text \<open>
  C2, as stated, fails on five inputs that are absent from the cache and from
  the resource tree: an absolute name ends in the resolver's \<open>AssertionError\<close>, a
  name below a regular file in \<open>NotADirectoryError\<close>, a name with a NUL
  character in \<open>ValueError\<close>, a name of 256 bytes in the \<open>OSError\<close> of
  \<open>ENAMETOOLONG\<close>, and a name with a trailing slash, in an archive whose \<open>open\<close>
  tests for directories, in \<open>IsADirectoryError\<close>.
\<close>

theorem readers_not_found_counterexample:
  "resource_cache_init ''/missing.html'' = None
   \<and> \<not> in_resource_tree env_installed ''/missing.html''
   \<and> fst (read_file env_installed ''/missing.html'' resource_cache_init) = Inl AssertionError
   \<and> fst (read_file_binary env_installed ''/missing.html'' resource_cache_init) = Inl AssertionError
   \<and> resource_cache_init ''html/log.html/x'' = None
   \<and> \<not> in_resource_tree env_installed ''html/log.html/x''
   \<and> fst (read_file env_installed ''html/log.html/x'' resource_cache_init) = Inl NotADirectoryError
   \<and> fst (read_file_binary env_installed ''html/log.html/x'' resource_cache_init) = Inl NotADirectoryError
   \<and> resource_cache_init [CHR ''a'', CHR 0x00, CHR ''b''] = None
   \<and> \<not> in_resource_tree env_installed [CHR ''a'', CHR 0x00, CHR ''b'']
   \<and> fst (read_file env_installed [CHR ''a'', CHR 0x00, CHR ''b''] resource_cache_init) = Inl ValueError
   \<and> fst (read_file_binary env_installed [CHR ''a'', CHR 0x00, CHR ''b''] resource_cache_init)
       = Inl ValueError
   \<and> resource_cache_init (replicate 256 CHR ''x'') = None
   \<and> \<not> in_resource_tree env_installed (replicate 256 CHR ''x'')
   \<and> fst (read_file env_installed (replicate 256 CHR ''x'') resource_cache_init) = Inl OSError
   \<and> fst (read_file_binary env_installed (replicate 256 CHR ''x'') resource_cache_init) = Inl OSError
   \<and> resource_cache_init ''html/gone/'' = None
   \<and> \<not> in_resource_tree env_zipped_checked ''html/gone/''
   \<and> fst (read_file env_zipped_checked ''html/gone/'' resource_cache_init) = Inl IsADirectoryError
   \<and> fst (read_file_binary env_zipped_checked ''html/gone/'' resource_cache_init) = Inl IsADirectoryError"
proof -
  have c: "resource_cache_init n = None" for n
    by (simp add: resource_cache_init_def)
  have t1: "\<not> in_resource_tree env_installed ''/missing.html''" by code_simp
  have t2: "\<not> in_resource_tree env_installed ''html/log.html/x''" by code_simp
  have t3: "\<not> in_resource_tree env_zipped_checked ''html/gone/''" by code_simp
  have t4: "\<not> in_resource_tree env_installed [CHR ''a'', CHR 0x00, CHR ''b'']" by code_simp
  have t5: "\<not> in_resource_tree env_installed (replicate 256 CHR ''x'')" by code_simp
  have a1: "fst (read_file env_installed ''/missing.html'' resource_cache_init) = Inl AssertionError"
      "fst (read_file_binary env_installed ''/missing.html'' resource_cache_init) = Inl AssertionError"
    by code_simp+
  have a2: "fst (read_file env_installed ''html/log.html/x'' resource_cache_init) = Inl NotADirectoryError"
      "fst (read_file_binary env_installed ''html/log.html/x'' resource_cache_init) = Inl NotADirectoryError"
    by code_simp+
  have a3: "fst (read_file env_zipped_checked ''html/gone/'' resource_cache_init) = Inl IsADirectoryError"
      "fst (read_file_binary env_zipped_checked ''html/gone/'' resource_cache_init) = Inl IsADirectoryError"
    by code_simp+
  have a4: "fst (read_file env_installed [CHR ''a'', CHR 0x00, CHR ''b''] resource_cache_init) = Inl ValueError"
      "fst (read_file_binary env_installed [CHR ''a'', CHR 0x00, CHR ''b''] resource_cache_init)
         = Inl ValueError"
    by code_simp+
  have a5: "fst (read_file env_installed (replicate 256 CHR ''x'') resource_cache_init) = Inl OSError"
      "fst (read_file_binary env_installed (replicate 256 CHR ''x'') resource_cache_init) = Inl OSError"
    by code_simp+
  from c t1 t2 t3 t4 t5 a1 a2 a3 a4 a5 show ?thesis by blast
qed

text \<open>
  C2 (amended).  For a valid relative name that is absent from the cache and whose
  handle the platform reports as missing (path resolution ends in \<open>ENOENT\<close>: the
  path has no NUL character, is shorter than \<open>PATH_MAX\<close>, and reaches a directory
  that has no entry for the next component, which is not longer than
  \<open>NAME_MAX\<close>; or the member name is not in the name list of the archive and,
  where \<open>open\<close> tests for directories, does not end in a slash), \<open>read_file\<close> and
  \<open>read_file_binary\<close> both fail with \<open>FileNotFoundError\<close>, in every deployment
  mode; and no call of either reader fails with \<open>KeyError\<close>.
\<close>

theorem readers_not_found:
  assumes "valid_name name"
    and "resource_cache name = None"
    and "handle_missing env (handle_join env (resource_root env) name)"
  shows "fst (read_file env name resource_cache) = Inl FileNotFoundError
       \<and> fst (read_file_binary env name resource_cache) = Inl FileNotFoundError
       \<and> fst (read_file env' name' resource_cache') \<noteq> Inl KeyError
       \<and> fst (read_file_binary env' name' resource_cache') \<noteq> Inl KeyError"
proof -
  note rp = resource_path_valid [OF assms(1), of env]
  have "fst (read_file env name resource_cache) = Inl FileNotFoundError"
    using assms(2) read_text_missing [OF assms(3)] by (simp add: read_file_def rp)
  moreover have "fst (read_file_binary env name resource_cache) = Inl FileNotFoundError"
    using read_bytes_missing [OF assms(3)] by (simp add: read_file_binary_def rp)
  moreover have "fst (read_file env' name' resource_cache') \<noteq> Inl KeyError"
    by (auto simp: read_file_def resource_path_def workaround_no_keyerror
             split: option.splits sum.splits if_splits)
  moreover have "fst (read_file_binary env' name' resource_cache') \<noteq> Inl KeyError"
    by (auto simp: read_file_binary_def resource_path_def workaround_no_keyerror
             split: option.splits sum.splits if_splits)
  ultimately show ?thesis by blast
qed

theorem readers_not_found_witness:
  "read_bytes env_zipped (ZipH ''qutebrowser/missing/nope.html'') = Inl KeyError
   \<and> fst (read_file env_zipped ''missing/nope.html'' resource_cache_init) = Inl FileNotFoundError
   \<and> fst (read_file_binary env_zipped ''missing/nope.html'' resource_cache_init) = Inl FileNotFoundError
   \<and> fst (read_file env_installed ''missing/nope.html'' resource_cache_init) = Inl FileNotFoundError
   \<and> fst (read_file_binary env_frozen ''missing/nope.html'' resource_cache_init) = Inl FileNotFoundError
   \<and> fst (read_file env_installed (replicate 255 CHR ''x'') resource_cache_init) = Inl FileNotFoundError
   \<and> fst (read_file env_zipped ''html/gone/'' resource_cache_init) = Inl FileNotFoundError"
proof -
  have v: "valid_name ''missing/nope.html''" by code_simp
  have v4: "valid_name (replicate 255 CHR ''x'')" by code_simp
  have c4: "resource_cache_init (replicate 255 CHR ''x'') = None"
    by (simp add: resource_cache_init_def)
  have m4: "handle_missing env_installed
      (handle_join env_installed (resource_root env_installed) (replicate 255 CHR ''x''))"
    by code_simp
  have v5: "valid_name ''html/gone/''" by code_simp
  have c5: "resource_cache_init ''html/gone/'' = None"
    by (simp add: resource_cache_init_def)
  have m5: "handle_missing env_zipped (handle_join env_zipped (resource_root env_zipped) ''html/gone/'')"
    by code_simp
  have c: "resource_cache_init ''missing/nope.html'' = None"
    by (simp add: resource_cache_init_def)
  have k: "read_bytes env_zipped (ZipH ''qutebrowser/missing/nope.html'') = Inl KeyError"
    by code_simp
  have m1: "handle_missing env_zipped (handle_join env_zipped (resource_root env_zipped) ''missing/nope.html'')"
    by code_simp
  have m2: "handle_missing env_installed (handle_join env_installed (resource_root env_installed) ''missing/nope.html'')"
    by code_simp
  have m3: "handle_missing env_frozen (handle_join env_frozen (resource_root env_frozen) ''missing/nope.html'')"
    by code_simp
  show ?thesis
    using readers_not_found [where name = "''missing/nope.html''" and resource_cache = resource_cache_init
            and env = env_zipped, OF v c m1]
          readers_not_found [where name = "''missing/nope.html''" and resource_cache = resource_cache_init
            and env = env_installed, OF v c m2]
          readers_not_found [where name = "''missing/nope.html''" and resource_cache = resource_cache_init
            and env = env_frozen, OF v c m3]
          readers_not_found [where name = "replicate 255 CHR ''x''" and resource_cache = resource_cache_init
            and env = env_installed, OF v4 c4 m4]
          readers_not_found [where name = "''html/gone/''" and resource_cache = resource_cache_init
            and env = env_zipped, OF v5 c5 m5] k
    by blast
qed

subsection \<open>Enumeration\<close>

text \<open>
  An extension without pattern syntax: the pattern \<open>*ext\<close> then matches the names
  that end with the extension, and both branches of \<open>_glob_resources\<close> yield the
  entries directly inside the subdirectory whose names end with it (nothing
  when the subdirectory is not a directory of a \<open>pathlib.Path\<close> tree).
\<close>

lemma endswith_iff: "endswith s p = (\<exists>q. s = q @ p)"
proof
  assume "endswith s p"
  then have "s = take (length s - length p) s @ p"
    by (metis append_take_drop_id endswith_def)
  then show "\<exists>q. s = q @ p" ..
next
  assume "\<exists>q. s = q @ p"
  then show "endswith s p" by (auto simp: endswith_def)
qed

lemma endswith_Cons: "endswith (c # cs) p = (p = c # cs \<or> endswith cs p)"
  by (auto simp: endswith_iff Cons_eq_append_conv)

lemma translate_literal:
  "CHR ''*'' \<notin> set s \<Longrightarrow> CHR ''?'' \<notin> set s \<Longrightarrow> CHR ''['' \<notin> set s \<Longrightarrow> translate s = map Lit s"
  by (induction s) auto

lemma pieces_match_literal: "pieces_match (map Lit p) s = (s = p)"
proof (induction p arbitrary: s)
  case Nil
  then show ?case by simp
next
  case (Cons a p)
  then show ?case by (cases s) auto
qed

lemma pieces_match_star_literal: "pieces_match (Star # map Lit p) s = endswith s p"
proof (induction s)
  case Nil
  show ?case by (auto simp: pieces_match_literal endswith_def)
next
  case (Cons c cs)
  then show ?case by (auto simp: pieces_match_literal endswith_Cons)
qed

lemma fnmatch_star_literal:
  "CHR ''*'' \<notin> set ext \<Longrightarrow> CHR ''?'' \<notin> set ext \<Longrightarrow> CHR ''['' \<notin> set ext \<Longrightarrow>
   fnmatch name (CHR ''*'' # ext) = endswith name ext"
  by (simp add: fnmatch_def translate_literal pieces_match_star_literal)

lemma str_split_no_sep: "sep \<notin> set s \<Longrightarrow> str_split sep s = [s]"
  by (induction s) auto

lemma gen_collect_all_yield: "gen_collect (map (Inr \<circ> f) xs) = (map f xs, None)"
  by (induction xs) auto

lemma concat_map_selected:
  "concat (map (\<lambda>x. if P x then select_from_parts env [] (f x) else []) xs)
     = map (Inr \<circ> f) (filter P xs)"
  by (induction xs) auto

lemma glob_star_literal:
  assumes "CHR ''*'' \<notin> set ext" "CHR ''?'' \<notin> set ext" "CHR ''['' \<notin> set ext" "CHR ''/'' \<notin> set ext"
  shows "glob env path (CHR ''*'' # ext)
       = (case stat env path of
            Inr (Dir es) \<Rightarrow>
              map (Inr \<circ> (\<lambda>(name, node). make_child_relpath path name))
                  (filter (\<lambda>(name, node). endswith name ext) es)
          | Inr (File b) \<Rightarrow> []
          | Inl e \<Rightarrow> if ignore_error e then [] else [Inl e])"
proof -
  let ?pat = "CHR ''*'' # ext"
  from assms(4) have sp: "str_split CHR ''/'' ?pat = [?pat]"
    by (intro str_split_no_sep) simp
  have pp: "p_parts (parse_path ?pat) = [?pat]"
    by (simp add: parse_path_def splitroot_def sp del: str_split.simps)
  have "last ?pat \<in> set ?pat" by (rule last_in_set) simp
  moreover from assms(4) have "CHR ''/'' \<notin> set ?pat" by simp
  ultimately have la: "last ?pat \<noteq> CHR ''/''" by metis
  have sel: "select_from_parts env [?pat] path
      = map (Inr \<circ> (\<lambda>(name, node). make_child_relpath path name))
            (filter (\<lambda>(name, node). endswith name ext) es)"
    if "scandir env path = Inr es" for es
    using assms(1-3) that
    by (simp add: is_wildcard_pattern_def fnmatch_star_literal case_prod_unfold concat_map_selected)
  have g: "glob env path ?pat
      = (case path_is_dir env path of
           Inl e \<Rightarrow> [Inl e]
         | Inr is_dir \<Rightarrow> if is_dir then select_from_parts env [?pat] path else [])"
    using pp la by (simp add: glob_def del: last.simps select_from_parts.simps)
  show ?thesis
  proof (cases "stat env path")
    case (Inl e)
    then show ?thesis by (simp add: g path_is_dir_def)
  next
    case (Inr n)
    show ?thesis
    proof (cases n)
      case (File b)
      with Inr show ?thesis by (simp add: g path_is_dir_def)
    next
      case (Dir es)
      with Inr have "scandir env path = Inr es" by (simp add: scandir_def)
      from sel [OF this] Inr Dir show ?thesis
        by (simp add: g path_is_dir_def del: select_from_parts.simps)
    qed
  qed
qed

lemma relative_to_child:
  "relative_to (make_child_relpath \<lparr> p_root = p_root rp, p_parts = p_parts rp @ ps \<rparr> name) rp
     = Inr \<lparr> p_root = [], p_parts = ps @ [name] \<rparr>"
  by (simp add: relative_to_def make_child_relpath_def)

lemma glob_resources_directory:
  assumes "CHR ''*'' \<notin> set ext" "CHR ''?'' \<notin> set ext" "CHR ''['' \<notin> set ext" "CHR ''/'' \<notin> set ext"
    and "startswith ext ''.''" and "\<not> posixpath_isabs subdir"
  shows "glob_resources env (PathH rp) subdir ext
       = (case stat env (joinpath rp subdir) of
            Inr (Dir es) \<Rightarrow>
              (map (\<lambda>(name, node).
                      as_posix \<lparr> p_root = [], p_parts = p_parts (parse_path subdir) @ [name] \<rparr>)
                   (filter (\<lambda>(name, node). endswith name ext) es),
               None)
          | Inr (File b) \<Rightarrow> ([], None)
          | Inl e \<Rightarrow> if ignore_error e then ([], None) else ([], Some e))"
proof -
  let ?ps = "p_parts (parse_path subdir)"
  let ?step = "\<lambda>step. case step of
                  Inl e \<Rightarrow> Inl e
                | Inr full_path \<Rightarrow> map_sum id as_posix (relative_to full_path rp)"
  from assms(6) have j: "joinpath rp subdir = \<lparr> p_root = p_root rp, p_parts = p_parts rp @ ?ps \<rparr>"
    by (simp add: joinpath_def parse_path_relative)
  have m: "map ?step (map (Inr \<circ> (\<lambda>(name, node). make_child_relpath (joinpath rp subdir) name)) es)
         = map (Inr \<circ> (\<lambda>(name, node). as_posix \<lparr> p_root = [], p_parts = ?ps @ [name] \<rparr>)) es"
    for es :: "(string \<times> fsnode) list"
    by (simp add: j relative_to_child case_prod_unfold)
  have gr: "glob_resources env (PathH rp) subdir ext
      = gen_collect (map ?step (glob env (joinpath rp subdir) (CHR ''*'' # ext)))"
    using assms(1,5) by (simp add: glob_resources_def Let_def)
  show ?thesis
  proof (cases "stat env (joinpath rp subdir)")
    case (Inl e)
    then show ?thesis by (simp add: gr glob_star_literal [OF assms(1-4)])
  next
    case (Inr n)
    show ?thesis
    proof (cases n)
      case (File b)
      with Inr show ?thesis by (simp add: gr glob_star_literal [OF assms(1-4)])
    next
      case (Dir es)
      with Inr show ?thesis
        by (simp only: gr glob_star_literal [OF assms(1-4)] m gen_collect_all_yield
              sum.case fsnode.case)
    qed
  qed
qed

lemma glob_resources_archive:
  assumes "CHR ''*'' \<notin> set ext" and "startswith ext ''.''"
  shows "glob_resources env (ZipH at) subdir ext
       = (if zip_is_dir (zip_joinpath env at subdir)
          then (map (\<lambda>member. posixpath_join subdir (zip_name env member))
                  (filter (\<lambda>member. endswith (zip_name env member) ext)
                     (filter (zip_is_child (zip_joinpath env at subdir)) (zip_namelist env))),
                None)
          else ([], Some AssertionError))"
  using assms by (simp add: glob_resources_def Let_def zip_iterdir_def)

lemma glob_resources_asserts:
  "CHR ''*'' \<in> set ext \<or> \<not> startswith ext ''.'' \<Longrightarrow>
   glob_resources env root subdir ext = ([], Some AssertionError)"
  by (auto simp: glob_resources_def)

text \<open>
  C5.  With the extension \<open>.?s\<close>, which passes both assertions, the branch for
  \<open>pathlib.Path\<close> handles yields \<open>javascript/scroll.js\<close>, whose file name does not
  end with the extension: the extension is used as part of a glob pattern.  The
  branch for archive handles tests the suffix and yields nothing there.
\<close>

theorem glob_resources_extension_as_pattern:
  "glob_resources env_installed (PathH (parse_path ''/opt/qutebrowser'')) ''javascript'' ''.?s''
     = ([''javascript/scroll.js''], None)
   \<and> \<not> endswith ''scroll.js'' ''.?s''
   \<and> glob_resources env_zipped (ZipH ''qutebrowser/'') ''javascript'' ''.?s'' = ([], None)
   \<and> glob_resources env_zipped (ZipH ''qutebrowser/'') ''javascript'' ''.js''
     = ([''javascript/scroll.js''], None)"
  by code_simp

subsection \<open>Preloading\<close>

lemma read_file_hit: "c name = Some v \<Longrightarrow> read_file env name c = (Inr v, c)"
  by (simp add: read_file_def)

lemma read_file_cong: "c1 name = c2 name \<Longrightarrow> fst (read_file env name c1) = fst (read_file env name c2)"
  by (simp add: read_file_def split: option.splits sum.splits)

lemma read_file_Inr_cases:
  "fst (read_file env name c) = Inr v \<Longrightarrow> c name = None \<or> c name = Some v"
  by (cases "c name") (simp_all add: read_file_def)

lemma stores_nil: "stores env c [] c"
  by (simp add: stores_def)

lemma stores_single:
  assumes "fst (read_file env m c) = Inr v"
  shows "stores env c [m] (c(m \<mapsto> v))"
  using assms by (simp add: stores_def)

lemma stores_append:
  assumes a: "stores env c as c1" and b: "stores env c1 bs c'"
  shows "stores env c (as @ bs) c'"
  unfolding stores_def
proof (intro allI conjI impI)
  fix n
  assume "n \<in> set (as @ bs)"
  show "\<exists>v. fst (read_file env n c) = Inr v \<and> c' n = Some v"
  proof (cases "n \<in> set as")
    case True
    with a obtain v where v: "fst (read_file env n c) = Inr v" "c1 n = Some v"
      by (auto simp: stores_def)
    show ?thesis
    proof (cases "n \<in> set bs")
      case True
      with b obtain w where w: "fst (read_file env n c1) = Inr w" "c' n = Some w"
        by (auto simp: stores_def)
      from v(2) w(1) have "w = v" by (simp add: read_file_hit)
      with v w show ?thesis by simp
    next
      case False
      with b have "c' n = c1 n" by (simp add: stores_def)
      with v show ?thesis by simp
    qed
  next
    case False
    with \<open>n \<in> set (as @ bs)\<close> have nb: "n \<in> set bs" by simp
    from False a have "c1 n = c n" by (simp add: stores_def)
    then have "fst (read_file env n c1) = fst (read_file env n c)"
      by (rule read_file_cong [of c1 n c env])
    with nb b show ?thesis by (auto simp: stores_def)
  qed
next
  fix n
  assume "n \<notin> set (as @ bs)"
  with a b show "c' n = c n" by (simp add: stores_def)
qed

lemma preload_names_stores:
  "preload_names env names c = (None, c') \<Longrightarrow> stores env c names c'"
proof (induction names arbitrary: c)
  case Nil
  then show ?case by (simp add: stores_nil)
next
  case (Cons m ms)
  from Cons.prems obtain v where v: "fst (read_file env m c) = Inr v"
    and rest: "preload_names env ms (c(m \<mapsto> v)) = (None, c')"
    using read_file_frame [of env m c]
    by (cases "read_file env m c") (auto split: sum.splits)
  from stores_append [OF stores_single [OF v] Cons.IH [OF rest]] show ?case by simp
qed

lemma preload_pairs_stores:
  "preload_pairs env root pairs c = (None, c') \<Longrightarrow>
   stores env c (concat (map (\<lambda>(subdir, ext). fst (glob_resources env root subdir ext)) pairs)) c'"
proof (induction pairs arbitrary: c)
  case Nil
  then show ?case by (simp add: stores_nil)
next
  case (Cons pr ps)
  obtain subdir ext where pr: "pr = (subdir, ext)" by (cases pr)
  obtain names raised where g: "glob_resources env root subdir ext = (names, raised)"
    by (cases "glob_resources env root subdir ext")
  from Cons.prems pr g obtain c1 where n: "preload_names env names c = (None, c1)"
    and rest: "preload_pairs env root ps c1 = (None, c')"
    by (auto split: prod.splits option.splits)
  from stores_append [OF preload_names_stores [OF n] Cons.IH [OF rest]] pr g
  show ?case by simp
qed

lemma preload_resources_stores:
  "preload_resources env c = (None, c') \<Longrightarrow> stores env c (discovered_names env) c'"
  by (auto simp: preload_resources_def discovered_names_def split: sum.splits
           dest: preload_pairs_stores)

lemma discovered_names_pairs:
  "\<exists>root. resource_path env [] = Inr root
     \<and> discovered_names env
         = fst (glob_resources env root ''html'' ''.html'')
           @ fst (glob_resources env root ''javascript'' ''.js'')
           @ fst (glob_resources env root ''javascript/quirks'' ''.js'')"
proof -
  from resource_path_valid [OF valid_name_empty, of env]
  show ?thesis by (simp add: discovered_names_def preload_dirs_def)
qed

text \<open>
  C6.  When \<open>preload_resources()\<close> returns, the names it enumerated are those of
  \<open>html\<close> with \<open>.html\<close>, \<open>javascript\<close> with \<open>.js\<close> and \<open>javascript/quirks\<close> with \<open>.js\<close>
  under the handle of the empty name; the cache holds under each of them the
  text that \<open>read_file\<close> returned for it, and every other key is as before.
\<close>

theorem preload_resources_populates:
  assumes "preload_resources env resource_cache = (None, cache')"
  shows "(\<exists>root. resource_path env [] = Inr root
            \<and> discovered_names env
                = fst (glob_resources env root ''html'' ''.html'')
                  @ fst (glob_resources env root ''javascript'' ''.js'')
                  @ fst (glob_resources env root ''javascript/quirks'' ''.js''))
       \<and> (\<forall>name \<in> set (discovered_names env).
            \<exists>content. fst (read_file env name resource_cache) = Inr content
                       \<and> cache' name = Some content)
       \<and> (\<forall>name. name \<notin> set (discovered_names env) \<longrightarrow> cache' name = resource_cache name)"
  using preload_resources_stores [OF assms] discovered_names_pairs [of env]
  unfolding stores_def by blast

theorem preload_resources_populates_witness:
  "fst (preload_resources env_zipped resource_cache_init) = None
   \<and> discovered_names env_zipped = [''html/log.html'', ''javascript/scroll.js'', ''javascript/quirks/foo.js'']
   \<and> snd (preload_resources env_zipped resource_cache_init) ''html/log.html''
       = Some [60, 112, 114, 101, 62, 108, 111, 103, 60, 47, 112, 114, 101, 62]
   \<and> snd (preload_resources env_zipped resource_cache_init) ''javascript/quirks/foo.js''
       = Some [118, 97, 114, 32, 113, 59]
   \<and> snd (preload_resources env_zipped resource_cache_init) ''html/notes.txt'' = None"
proof -
  have ok: "fst (preload_resources env_zipped resource_cache_init) = None"
    by code_simp
  then have p: "preload_resources env_zipped resource_cache_init
      = (None, snd (preload_resources env_zipped resource_cache_init))"
    by (simp add: prod_eq_iff)
  have d: "discovered_names env_zipped
      = [''html/log.html'', ''javascript/scroll.js'', ''javascript/quirks/foo.js'']"
    by code_simp
  have r1: "fst (read_file env_zipped ''html/log.html'' resource_cache_init)
      = Inr [60, 112, 114, 101, 62, 108, 111, 103, 60, 47, 112, 114, 101, 62]"
    by code_simp
  have r2: "fst (read_file env_zipped ''javascript/quirks/foo.js'' resource_cache_init)
      = Inr [118, 97, 114, 32, 113, 59]"
    by code_simp
  have e: "resource_cache_init ''html/notes.txt'' = None"
    by (simp add: resource_cache_init_def)
  from preload_resources_populates [OF p] d r1 r2 e ok show ?thesis
    by auto
qed

text \<open>
  \<open>preload_resources()\<close> returns without an exception exactly when none of the
  three enumerations raises and every enumerated name can be read.
\<close>

lemma readable_iff: "readable env c name = (\<exists>v. fst (read_file env name c) = Inr v)"
  by (auto simp: readable_def split: sum.splits)

lemma stores_readable:
  assumes "stores env c names c'"
  shows "readable env c' n = readable env c n"
proof (cases "n \<in> set names")
  case True
  with assms obtain v where "fst (read_file env n c) = Inr v" "c' n = Some v"
    by (auto simp: stores_def)
  then show ?thesis by (simp add: readable_iff read_file_hit)
next
  case False
  with assms have "c' n = c n" by (simp add: stores_def)
  from read_file_cong [of c' n c env, OF this] show ?thesis by (simp add: readable_iff)
qed

lemma preload_names_returns:
  "(fst (preload_names env names c) = None) = (\<forall>n \<in> set names. readable env c n)"
proof (induction names arbitrary: c)
  case Nil
  show ?case by simp
next
  case (Cons m ms)
  show ?case
  proof (cases "fst (read_file env m c)")
    case (Inl e)
    then have "\<not> readable env c m" by (simp add: readable_def)
    moreover from Inl have "fst (preload_names env (m # ms) c) = Some e"
      by (cases "read_file env m c") auto
    ultimately show ?thesis by auto
  next
    case (Inr v)
    then have rm: "readable env c m" by (simp add: readable_def)
    from Inr read_file_frame [of env m c]
    have step: "preload_names env (m # ms) c = preload_names env ms (c(m \<mapsto> v))"
      by (cases "read_file env m c") auto
    from stores_readable [OF stores_single [OF Inr]]
    have same: "readable env (c(m \<mapsto> v)) n = readable env c n" for n .
    have "(fst (preload_names env (m # ms) c) = None)
        = (fst (preload_names env ms (c(m \<mapsto> v))) = None)"
      by (simp only: step)
    also have "\<dots> = (\<forall>n \<in> set ms. readable env (c(m \<mapsto> v)) n)"
      by (rule Cons.IH)
    also have "\<dots> = (\<forall>n \<in> set ms. readable env c n)"
      by (simp only: same)
    also from rm have "\<dots> = (\<forall>n \<in> set (m # ms). readable env c n)"
      by simp
    finally show ?thesis .
  qed
qed

lemma preload_pairs_returns:
  "(fst (preload_pairs env root pairs c) = None)
     = ((\<forall>(subdir, ext) \<in> set pairs. snd (glob_resources env root subdir ext) = None)
        \<and> (\<forall>n \<in> set (concat (map (\<lambda>(subdir, ext). fst (glob_resources env root subdir ext)) pairs)).
              readable env c n))"
proof (induction pairs arbitrary: c)
  case Nil
  show ?case by simp
next
  case (Cons pr ps)
  obtain subdir ext where pr: "pr = (subdir, ext)" by (cases pr)
  obtain names raised where g: "glob_resources env root subdir ext = (names, raised)"
    by (cases "glob_resources env root subdir ext")
  obtain r1 c1 where n: "preload_names env names c = (r1, c1)"
    by (cases "preload_names env names c")
  from preload_names_returns [of env names c] n
  have r1: "(r1 = None) = (\<forall>n \<in> set names. readable env c n)" by simp
  show ?case
  proof (cases r1)
    case (Some e)
    with r1 have "\<not> (\<forall>n \<in> set names. readable env c n)" by simp
    moreover from Some pr g n have "fst (preload_pairs env root (pr # ps) c) = Some e" by simp
    ultimately show ?thesis using pr g by auto
  next
    case None
    note n0 = n [unfolded None]
    from r1 None have all: "\<forall>n \<in> set names. readable env c n" by simp
    show ?thesis
    proof (cases raised)
      case (Some e)
      with pr g n0 have "fst (preload_pairs env root (pr # ps) c) = Some e" by simp
      with Some pr g show ?thesis by auto
    next
      case None
      with pr g n0 have step: "preload_pairs env root (pr # ps) c = preload_pairs env root ps c1"
        by simp
      from stores_readable [OF preload_names_stores [OF n0]]
      have same: "readable env c1 k = readable env c k" for k .
      let ?rest = "concat (map (\<lambda>(subdir, ext). fst (glob_resources env root subdir ext)) ps)"
      let ?quiet = "\<forall>(subdir, ext) \<in> set ps. snd (glob_resources env root subdir ext) = None"
      have "(fst (preload_pairs env root (pr # ps) c) = None)
          = (fst (preload_pairs env root ps c1) = None)"
        by (simp only: step)
      also have "\<dots> = (?quiet \<and> (\<forall>n \<in> set ?rest. readable env c1 n))"
        by (rule Cons.IH)
      also have "\<dots> = (?quiet \<and> (\<forall>n \<in> set ?rest. readable env c n))"
        by (simp only: same)
      finally show ?thesis using all None pr g by auto
    qed
  qed
qed

lemma preload_resources_returns:
  "(fst (preload_resources env c) = None)
     = (\<exists>root. resource_path env [] = Inr root
          \<and> (\<forall>(subdir, ext) \<in> set preload_dirs. snd (glob_resources env root subdir ext) = None)
          \<and> (\<forall>n \<in> set (discovered_names env). readable env c n))"
proof -
  obtain root where root: "resource_path env [] = Inr root"
    using resource_path_valid [OF valid_name_empty, of env] by simp
  with preload_pairs_returns [of env root preload_dirs c] show ?thesis
    by (simp add: preload_resources_def discovered_names_def)
qed

text \<open>A run only adds entries; a second run finds every name it reads in the cache.\<close>

lemma preload_names_le: "preload_names env names c = (r, c') \<Longrightarrow> c \<subseteq>\<^sub>m c'"
proof (induction names arbitrary: c)
  case Nil
  then show ?case by simp
next
  case (Cons m ms)
  show ?case
  proof (cases "fst (read_file env m c)")
    case (Inl e)
    with Cons.prems read_file_frame [of env m c] show ?thesis
      by (cases "read_file env m c") auto
  next
    case (Inr v)
    with Cons.prems read_file_frame [of env m c]
    have rest: "preload_names env ms (c(m \<mapsto> v)) = (r, c')"
      by (cases "read_file env m c") auto
    from read_file_Inr_cases [OF Inr] have "c \<subseteq>\<^sub>m c(m \<mapsto> v)"
      by (auto simp: map_le_def)
    with Cons.IH [OF rest] show ?thesis by (rule map_le_trans [rotated])
  qed
qed

lemma preload_names_rerun_ok:
  "preload_names env names c = (None, c') \<Longrightarrow> c' \<subseteq>\<^sub>m d \<Longrightarrow> preload_names env names d = (None, d)"
proof (induction names arbitrary: c)
  case Nil
  then show ?case by simp
next
  case (Cons m ms)
  from Cons.prems(1) obtain v where v: "fst (read_file env m c) = Inr v"
    and rest: "preload_names env ms (c(m \<mapsto> v)) = (None, c')"
    using read_file_frame [of env m c]
    by (cases "read_file env m c") (auto split: sum.splits)
  from preload_names_le [OF rest] have "c' m = Some v"
    by (auto simp: map_le_def)
  with Cons.prems(2) have dm: "d m = Some v"
    by (auto simp: map_le_def dom_def)
  then have "d(m \<mapsto> v) = d" by (rule map_upd_triv)
  with dm Cons.IH [OF rest Cons.prems(2)] show ?case
    by (simp add: read_file_hit)
qed

lemma preload_names_rerun_fail:
  "preload_names env names c = (Some e, c') \<Longrightarrow> preload_names env names c' = (Some e, c')"
proof (induction names arbitrary: c)
  case Nil
  then show ?case by simp
next
  case (Cons m ms)
  show ?case
  proof (cases "fst (read_file env m c)")
    case (Inl e')
    with Cons.prems read_file_frame [of env m c] show ?thesis
      by (cases "read_file env m c") auto
  next
    case (Inr v)
    with Cons.prems read_file_frame [of env m c]
    have rest: "preload_names env ms (c(m \<mapsto> v)) = (Some e, c')"
      by (cases "read_file env m c") auto
    from preload_names_le [OF rest] have dm: "c' m = Some v"
      by (auto simp: map_le_def)
    then have "c'(m \<mapsto> v) = c'" by (rule map_upd_triv)
    with dm Cons.IH [OF rest] show ?thesis
      by (simp add: read_file_hit)
  qed
qed

lemma preload_pairs_le: "preload_pairs env root pairs c = (r, c') \<Longrightarrow> c \<subseteq>\<^sub>m c'"
proof (induction pairs arbitrary: c)
  case Nil
  then show ?case by simp
next
  case (Cons pr ps)
  obtain subdir ext where pr: "pr = (subdir, ext)" by (cases pr)
  obtain names raised where g: "glob_resources env root subdir ext = (names, raised)"
    by (cases "glob_resources env root subdir ext")
  obtain r1 c1 where n: "preload_names env names c = (r1, c1)"
    by (cases "preload_names env names c")
  note le1 = preload_names_le [OF n]
  show ?case
  proof (cases "r1 = None \<and> raised = None")
    case True
    with Cons.prems pr g n have "preload_pairs env root ps c1 = (r, c')" by simp
    from le1 Cons.IH [OF this] show ?thesis by (rule map_le_trans)
  next
    case False
    with Cons.prems pr g n have "c' = c1" by (auto split: option.splits)
    with le1 show ?thesis by simp
  qed
qed

lemma preload_pairs_rerun_ok:
  "preload_pairs env root pairs c = (None, c') \<Longrightarrow> c' \<subseteq>\<^sub>m d \<Longrightarrow>
   preload_pairs env root pairs d = (None, d)"
proof (induction pairs arbitrary: c)
  case Nil
  then show ?case by simp
next
  case (Cons pr ps)
  obtain subdir ext where pr: "pr = (subdir, ext)" by (cases pr)
  obtain names raised where g: "glob_resources env root subdir ext = (names, raised)"
    by (cases "glob_resources env root subdir ext")
  from Cons.prems(1) pr g obtain c1 where n: "preload_names env names c = (None, c1)"
    and ra: "raised = None"
    and rest: "preload_pairs env root ps c1 = (None, c')"
    by (auto split: prod.splits option.splits)
  from preload_pairs_le [OF rest] Cons.prems(2) have "c1 \<subseteq>\<^sub>m d" by (rule map_le_trans)
  from preload_names_rerun_ok [OF n this] Cons.IH [OF rest Cons.prems(2)] pr g ra
  show ?case by simp
qed

lemma preload_pairs_rerun_fail:
  "preload_pairs env root pairs c = (Some e, c') \<Longrightarrow>
   preload_pairs env root pairs c' = (Some e, c')"
proof (induction pairs arbitrary: c)
  case Nil
  then show ?case by simp
next
  case (Cons pr ps)
  obtain subdir ext where pr: "pr = (subdir, ext)" by (cases pr)
  obtain names raised where g: "glob_resources env root subdir ext = (names, raised)"
    by (cases "glob_resources env root subdir ext")
  obtain r1 c1 where n: "preload_names env names c = (r1, c1)"
    by (cases "preload_names env names c")
  show ?case
  proof (cases r1)
    case (Some e1)
    with Cons.prems pr g n have "e1 = e" "c1 = c'" by simp_all
    with Some n preload_names_rerun_fail [of env names c e c'] pr g show ?thesis by simp
  next
    case None
    note n0 = n [unfolded None]
    show ?thesis
    proof (cases raised)
      case (Some e2)
      with Cons.prems pr g n None have "e2 = e" "c1 = c'" by simp_all
      with Some preload_names_rerun_ok [OF n0 map_le_refl] pr g show ?thesis by simp
    next
      case None
      with Cons.prems pr g n0 have rest: "preload_pairs env root ps c1 = (Some e, c')" by simp
      from preload_names_rerun_ok [OF n0 preload_pairs_le [OF rest]] Cons.IH [OF rest] pr g None
      show ?thesis by simp
    qed
  qed
qed

text \<open>
  C7.  Running \<open>preload_resources()\<close> again in the cache that a first run left,
  with the same resource tree, ends the same way and leaves that cache as it is.
\<close>

theorem preload_resources_idempotent:
  "preload_resources env (snd (preload_resources env resource_cache))
     = preload_resources env resource_cache"
proof -
  obtain root where root: "resource_path env [] = Inr root"
    using resource_path_valid [OF valid_name_empty, of env] by simp
  obtain r c' where p: "preload_pairs env root preload_dirs resource_cache = (r, c')"
    by (cases "preload_pairs env root preload_dirs resource_cache")
  have "preload_pairs env root preload_dirs c' = (r, c')"
  proof (cases r)
    case None
    with p preload_pairs_rerun_ok [of env root preload_dirs resource_cache c' c'] show ?thesis
      by simp
  next
    case (Some e)
    with p preload_pairs_rerun_fail [of env root preload_dirs resource_cache e c'] show ?thesis
      by simp
  qed
  with p root show ?thesis by (simp add: preload_resources_def)
qed

theorem preload_resources_idempotent_witness:
  "preload_resources env_frozen (snd (preload_resources env_frozen resource_cache_init))
     = preload_resources env_frozen resource_cache_init"
  using preload_resources_idempotent [of env_frozen resource_cache_init] by simp

lemma uncached_read:
  "fst (read_file env name resource_cache_init) = Inr content \<Longrightarrow>
   \<exists>h. resource_path env name = Inr h \<and> read_text env h = Inr content"
  by (auto simp: read_file_def resource_cache_init_def resource_keyerror_workaround_def
           split: sum.splits if_splits)

lemma coherent_read:
  assumes co: "cache_coherent env c" and r: "fst (read_file env name c) = Inr v"
  shows "fst (read_file env name resource_cache_init) = Inr v"
proof (cases "c name")
  case None
  then have "c name = resource_cache_init name" by (simp add: resource_cache_init_def)
  from read_file_cong [of c name resource_cache_init env, OF this] r show ?thesis by simp
next
  case (Some w)
  with r have "w = v" by (simp add: read_file_hit)
  with Some co show ?thesis by (simp add: cache_coherent_def)
qed

lemma stores_coherent:
  assumes co: "cache_coherent env c" and st: "stores env c names c'"
  shows "cache_coherent env c'"
  unfolding cache_coherent_def
proof (intro allI impI)
  fix name content
  assume s: "c' name = Some content"
  show "fst (read_file env name resource_cache_init) = Inr content"
  proof (cases "name \<in> set names")
    case True
    with st s have "fst (read_file env name c) = Inr content" by (auto simp: stores_def)
    with co show ?thesis by (rule coherent_read)
  next
    case False
    with st s have "c name = Some content" by (simp add: stores_def)
    with co show ?thesis by (simp add: cache_coherent_def)
  qed
qed

text \<open>
  C8.  In a coherent cache (the empty cache of a new process is one), after
  \<open>preload_resources()\<close> has returned, every enumerated name is a key of the cache,
  \<open>read_file\<close> answers it from the cache, and the answer is the text an uncached
  read of the resolved handle returns; the cache is coherent again.
\<close>

theorem preload_resources_coherent:
  assumes "cache_coherent env resource_cache"
    and "preload_resources env resource_cache = (None, cache')"
    and "name \<in> set (discovered_names env)"
  shows "(\<exists>content. cache' name = Some content
           \<and> read_file env name cache' = (Inr content, cache')
           \<and> fst (read_file env name resource_cache_init) = Inr content
           \<and> (\<exists>h. resource_path env name = Inr h \<and> read_text env h = Inr content))
       \<and> cache_coherent env cache'"
proof -
  note st = preload_resources_stores [OF assms(2)]
  from assms(1) st have co': "cache_coherent env cache'" by (rule stores_coherent)
  from st assms(3) obtain v where v: "fst (read_file env name resource_cache) = Inr v" "cache' name = Some v"
    by (auto simp: stores_def)
  from coherent_read [OF assms(1) v(1)] have u: "fst (read_file env name resource_cache_init) = Inr v" .
  from v(2) have "read_file env name cache' = (Inr v, cache')" by (rule read_file_hit)
  with v(2) u uncached_read [OF u] co' show ?thesis by blast
qed

theorem preload_resources_coherent_witness:
  "snd (preload_resources env_installed resource_cache_init) ''javascript/quirks/foo.js''
       = Some [118, 97, 114, 32, 113, 59]
   \<and> fst (read_file env_installed ''javascript/quirks/foo.js''
            (snd (preload_resources env_installed resource_cache_init)))
       = Inr [118, 97, 114, 32, 113, 59]
   \<and> read_text env_installed
         (PathH \<lparr>p_root = ''/'', p_parts = [''opt'', ''qutebrowser'', ''javascript'', ''quirks'', ''foo.js'']\<rparr>)
       = Inr [118, 97, 114, 32, 113, 59]"
proof -
  have co: "cache_coherent env_installed resource_cache_init"
    by (simp add: cache_coherent_def resource_cache_init_def)
  have ok: "fst (preload_resources env_installed resource_cache_init) = None"
    by code_simp
  then have p: "preload_resources env_installed resource_cache_init
      = (None, snd (preload_resources env_installed resource_cache_init))"
    by (simp add: prod_eq_iff)
  have m: "''javascript/quirks/foo.js'' \<in> set (discovered_names env_installed)"
    by code_simp
  have r: "fst (read_file env_installed ''javascript/quirks/foo.js'' resource_cache_init)
      = Inr [118, 97, 114, 32, 113, 59]"
    by code_simp
  have h: "resource_path env_installed ''javascript/quirks/foo.js''
      = Inr (PathH \<lparr>p_root = ''/'', p_parts = [''opt'', ''qutebrowser'', ''javascript'', ''quirks'', ''foo.js'']\<rparr>)"
    by code_simp
  from preload_resources_coherent [OF co p m] r h show ?thesis
    by auto
qed

end
